theory Spec2Isabelle
  imports Complex_Main
begin

section \<open>Genesis engine: genetic prompt evolution (src/unnamed/part\_001)\<close>

text \<open>
  The module evolves a prompt with a genetic algorithm. Everything it does beyond
  computing is made explicit here:
  \<^item> the text-generation service (\<open>anthropic.messages.create\<close>) is an oracle that maps
    the number of the call and the request to \<open>Some text\<close>, or to \<open>None\<close> when the call
    throws; the oracle is arbitrary, so every behaviour of the service is covered;
  \<^item> \<open>Math.random\<close> is a second oracle, read through a counter of the draws made;
  \<^item> JavaScript numbers are modelled as \<open>real\<close> (rounding of doubles is not modelled),
    \<open>undefined\<close> and \<open>NaN\<close> as \<open>None\<close>;
  \<^item> response texts are \<open>string\<close>s, one \<open>char\<close> for each UTF-16 code unit, so the
    texts of the model are those whose code units are below 256.
\<close>

subsection \<open>String primitives used by the fitness heuristic\<close>

fun startsWith :: "string \<Rightarrow> string \<Rightarrow> bool" where
  "startsWith s [] = True"
| "startsWith [] (c # cs) = False"
| "startsWith (x # xs) (c # cs) = (x = c \<and> startsWith xs cs)"

text \<open>\<open>String.prototype.includes\<close>: the search string occurs at some position.\<close>

fun str_includes :: "string \<Rightarrow> string \<Rightarrow> bool" where
  "str_includes [] t = (t = [])"
| "str_includes (x # xs) t = (startsWith (x # xs) t \<or> str_includes xs t)"

text \<open>
  \<open>String.prototype.toLowerCase\<close> on code units below 256: the letters A to Z and the
  capital letters of the Latin-1 supplement (192 to 222 without the multiplication sign
  215) move up by 32, every other code unit stays.
\<close>

definition lowerChar :: "char \<Rightarrow> char" where
  "lowerChar c =
     (let n = (of_char c :: nat)
      in if (65 \<le> n \<and> n \<le> 90) \<or> (192 \<le> n \<and> n \<le> 222 \<and> n \<noteq> 215)
         then char_of (n + 32) else c)"

definition toLowerCase :: "string \<Rightarrow> string" where
  "toLowerCase s = map lowerChar s"

text \<open>
  The regular expression \<open>/Kodierung|Code|Kategorie/gi\<close>. Without the \<open>u\<close> flag the
  \<open>i\<close> flag compares code units after upper-casing, and a code unit of 128 or more is
  never identified with an ASCII letter, so only a to z are folded.
\<close>

definition canonicalize :: "char \<Rightarrow> char" where
  "canonicalize c =
     (let n = (of_char c :: nat)
      in if 97 \<le> n \<and> n \<le> 122 then char_of (n - 32) else c)"

fun matchesAt :: "string \<Rightarrow> string \<Rightarrow> bool" where
  "matchesAt s [] = True"
| "matchesAt [] (p # ps) = False"
| "matchesAt (x # xs) (p # ps) = (canonicalize x = canonicalize p \<and> matchesAt xs ps)"

text \<open>
  The alternatives are tried in the order of the pattern; the length of the first one
  that matches at the head of the text is returned.
\<close>

definition matchLength :: "string \<Rightarrow> nat option" where
  "matchLength s =
     (if matchesAt s ''Kodierung'' then Some 9
      else if matchesAt s ''Code'' then Some 4
      else if matchesAt s ''Kategorie'' then Some 9
      else None)"

text \<open>
  \<open>result.match(re)\<close> with the \<open>g\<close> flag collects the matches from left to right, each
  search starting where the previous match ended. \<open>countMatches k s\<close> is the number of
  matches in \<open>s\<close> when the next \<open>k\<close> code units still belong to the previous match.
\<close>

fun countMatches :: "nat \<Rightarrow> string \<Rightarrow> nat" where
  "countMatches k [] = 0"
| "countMatches (Suc k) (x # xs) = countMatches k xs"
| "countMatches 0 (x # xs) =
     (case matchLength (x # xs) of
        Some n \<Rightarrow> 1 + countMatches (n - 1) xs
      | None \<Rightarrow> countMatches 0 xs)"

subsection \<open>The fitness heuristic of \<open>calculatePromptFitness\<close>\<close>

text \<open>The five sub-signals, in the order in which the source adds them to \<open>fitness\<close>.\<close>

definition structureBonus :: "string \<Rightarrow> real" where
  "structureBonus result =
     (if str_includes result ''['' \<or> str_includes result ''{'' then 0.2 else 0)"

definition codingCount :: "string \<Rightarrow> nat" where
  "codingCount result = countMatches 0 result"

definition codingBonus :: "string \<Rightarrow> real" where
  "codingBonus result = min (real (codingCount result) * 0.05) 0.2"

definition reasoningBonus :: "string \<Rightarrow> real" where
  "reasoningBonus result =
     (if str_includes result ''weil'' \<or> str_includes result ''da''
         \<or> str_includes result (''Begr'' @ [CHR 0xFC] @ ''ndung'')
      then 0.2 else 0)"

definition methodTerms :: "string list" where
  "methodTerms = [''induktiv'', ''deduktiv'', ''Ankerbeispiel'', ''Dimension'', ''Eigenschaft'']"

definition methodScore :: "string \<Rightarrow> nat" where
  "methodScore result =
     length (filter (\<lambda>t. str_includes (toLowerCase result) (toLowerCase t)) methodTerms)"

definition methodBonus :: "string \<Rightarrow> real" where
  "methodBonus result = real (methodScore result) * 0.08"

definition idealLength :: real where
  "idealLength = 1500"

definition lengthRatio :: "string \<Rightarrow> real" where
  "lengthRatio result = \<bar>real (length result) - idealLength\<bar> / idealLength"

definition lengthBonus :: "string \<Rightarrow> real" where
  "lengthBonus result = max 0 (0.2 - lengthRatio result * 0.2)"

text \<open>The value of \<open>fitness\<close> before the final \<open>Math.min(fitness, 1)\<close>.\<close>

definition fitnessSum :: "string \<Rightarrow> real" where
  "fitnessSum result =
     0 + structureBonus result + codingBonus result + reasoningBonus result
       + methodBonus result + lengthBonus result"

definition scoreResponse :: "string \<Rightarrow> real" where
  "scoreResponse result = min (fitnessSum result) 1"

text \<open>
  The weights that the exported \<open>GENESIS_CONFIG.fitnessMetrics\<close> documents for the five
  sub-signals (structure, codings, reasoning, methodology, length): 0.2 each.
\<close>

definition metricWeight :: real where
  "metricWeight = 0.2"

subsection \<open>The outside world: the text-generation service and \<open>Math.random\<close>\<close>

text \<open>A prompt is a text, or \<open>None\<close> where the source reads a property that is absent.\<close>

type_synonym prompt = "string option"

text \<open>
  The three requests the module sends. The message text is a fixed function of the data
  kept here: the prompt (followed by the fixed test text) for a fitness evaluation; the
  chosen directive (its index in the catalogue \<open>mutations\<close>, \<open>None\<close> when the index is
  outside it), the strength in percent and the original prompt for a mutation; the two
  parents for a crossover.
\<close>

datatype request =
    FitnessRequest prompt
  | MutationRequest "nat option" int prompt
  | CrossoverRequest prompt prompt

record env =
  service :: "nat \<Rightarrow> request \<Rightarrow> string option"
  rnd :: "nat \<Rightarrow> real"

text \<open>What a run has done so far: the requests sent, in order, and the number of draws.\<close>

record world =
  requests :: "request list"
  draws :: nat

text \<open>\<open>Math.random\<close> returns a number that is at least 0 and below 1.\<close>

definition valid_random :: "env \<Rightarrow> bool" where
  "valid_random e = (\<forall>n. 0 \<le> rnd e n \<and> rnd e n < 1)"

definition Math_random :: "env \<Rightarrow> world \<Rightarrow> real \<times> world" where
  "Math_random e w = (rnd e (draws w), w\<lparr>draws := draws w + 1\<rparr>)"

text \<open>
  \<open>anthropic.messages.create\<close> followed by \<open>response.content[0].text\<close>: \<open>Some\<close> text
  of the first content block, \<open>None\<close> when the call or the access throws.
\<close>

definition messages_create :: "env \<Rightarrow> request \<Rightarrow> world \<Rightarrow> string option \<times> world" where
  "messages_create e req w =
     (service e (length (requests w)) req, w\<lparr>requests := requests w @ [req]\<rparr>)"

text \<open>\<open>xs[i]\<close> for an integer \<open>i\<close>: \<open>None\<close> is \<open>undefined\<close>.\<close>

definition arrayGet :: "'a list \<Rightarrow> int \<Rightarrow> 'a option" where
  "arrayGet xs i = (if 0 \<le> i \<and> i < int (length xs) then Some (xs ! nat i) else None)"

subsection \<open>\<open>calculatePromptFitness\<close>, \<open>mutatePrompt\<close>, \<open>crossoverPrompts\<close>\<close>

text \<open>The parameter \<open>fitnessType\<close> is not read by the source.\<close>

definition calculatePromptFitness :: "env \<Rightarrow> prompt \<Rightarrow> string \<Rightarrow> world \<Rightarrow> real \<times> world" where
  "calculatePromptFitness e p fitnessType w =
     (let (response, w1) = messages_create e (FitnessRequest p) w
      in case response of
           Some result \<Rightarrow> (scoreResponse result, w1)
         | None \<Rightarrow> (0, w1))"

definition mutationsLength :: nat where
  "mutationsLength = 7"

text \<open>\<open>Math.round\<close> rounds halves up.\<close>

definition Math_round :: "real \<Rightarrow> int" where
  "Math_round x = \<lfloor>x + 1 / 2\<rfloor>"

definition mutatePrompt :: "env \<Rightarrow> prompt \<Rightarrow> real \<Rightarrow> world \<Rightarrow> prompt \<times> world" where
  "mutatePrompt e p mutationStrength w =
     (let (r, w1) = Math_random e w;
          idx = \<lfloor>r * real mutationsLength\<rfloor>;
          selectedMutation =
            (if 0 \<le> idx \<and> idx < int mutationsLength then Some (nat idx) else None);
          (response, w2) =
            messages_create e
              (MutationRequest selectedMutation (Math_round (mutationStrength * 100)) p) w1
      in case response of
           Some text \<Rightarrow> (Some text, w2)
         | None \<Rightarrow> (p, w2))"

definition crossoverPrompts :: "env \<Rightarrow> prompt \<Rightarrow> prompt \<Rightarrow> world \<Rightarrow> prompt \<times> world" where
  "crossoverPrompts e parent1 parent2 w =
     (let (response, w1) = messages_create e (CrossoverRequest parent1 parent2) w
      in case response of
           Some text \<Rightarrow> (Some text, w1)
         | None \<Rightarrow>
             (let (r, w2) = Math_random e w1
              in (if r > 0.5 then parent1 else parent2, w2)))"

subsection \<open>Individuals, \<open>initializePopulation\<close> and \<open>evaluateFitness\<close>\<close>

text \<open>
  An individual is an object with the properties \<open>prompt\<close> and \<open>fitness\<close>; the object
  \<open>{}\<close> that the spread of \<open>undefined\<close> gives has neither.
\<close>

record individual =
  prompt :: prompt
  fitness :: "real option"

definition emptyObject :: individual where
  "emptyObject = \<lparr>prompt = None, fitness = None\<rparr>"

function initializeLoop ::
  "env \<Rightarrow> string \<Rightarrow> int \<Rightarrow> int \<Rightarrow> individual list \<Rightarrow> world \<Rightarrow> individual list \<times> world" where
  "initializeLoop e bp n i pop w =
     (if i < n
      then (let (variant, w1) = mutatePrompt e (Some bp) 0.3 w
            in initializeLoop e bp n (i + 1)
                 (pop @ [\<lparr>prompt = variant, fitness = Some 0\<rparr>]) w1)
      else (pop, w))"
  by pat_completeness auto
termination
  by (relation "measure (\<lambda>(e, bp, n, i, pop, w). nat (n - i))") auto

declare initializeLoop.simps [simp del]

definition initializePopulation ::
  "env \<Rightarrow> string \<Rightarrow> int \<Rightarrow> world \<Rightarrow> individual list \<times> world" where
  "initializePopulation e bp n w =
     initializeLoop e bp n 1 [\<lparr>prompt = Some bp, fitness = Some 0\<rparr>] w"

text \<open>
  The evaluations of one generation are started in the order of the population; each
  one is a call of its own to the service.
\<close>

fun evaluateAll ::
  "env \<Rightarrow> individual list \<Rightarrow> string \<Rightarrow> world \<Rightarrow> individual list \<times> world" where
  "evaluateAll e [] ft w = ([], w)"
| "evaluateAll e (x # xs) ft w =
     (let (f, w1) = calculatePromptFitness e (prompt x) ft w;
          (rest, w2) = evaluateAll e xs ft w1
      in (x\<lparr>fitness := Some f\<rparr> # rest, w2))"

text \<open>
  The comparator \<open>(a, b) => b.fitness - a.fitness\<close>; a result that is \<open>NaN\<close> counts as
  0 in \<open>Array.prototype.sort\<close>.
\<close>

definition byFitnessDesc :: "individual \<Rightarrow> individual \<Rightarrow> real" where
  "byFitnessDesc a b =
     (case (fitness b, fitness a) of (Some fb, Some fa) \<Rightarrow> fb - fa | _ \<Rightarrow> 0)"

text \<open>\<open>Array.prototype.sort\<close> is stable: elements that compare equal keep their order.\<close>

fun insertSorted :: "('a \<Rightarrow> 'a \<Rightarrow> real) \<Rightarrow> 'a \<Rightarrow> 'a list \<Rightarrow> 'a list" where
  "insertSorted cmp x [] = [x]"
| "insertSorted cmp x (y # ys) =
     (if cmp x y \<le> 0 then x # y # ys else y # insertSorted cmp x ys)"

fun sortJS :: "('a \<Rightarrow> 'a \<Rightarrow> real) \<Rightarrow> 'a list \<Rightarrow> 'a list" where
  "sortJS cmp [] = []"
| "sortJS cmp (x # xs) = insertSorted cmp x (sortJS cmp xs)"

definition evaluateFitness ::
  "env \<Rightarrow> individual list \<Rightarrow> string \<Rightarrow> world \<Rightarrow> individual list \<times> world" where
  "evaluateFitness e pop fitnessFunction w =
     (let (evaluated, w1) = evaluateAll e pop fitnessFunction w
      in (sortJS byFitnessDesc evaluated, w1))"

subsection \<open>\<open>tournamentSelect\<close> and \<open>evolvePopulation\<close>\<close>

datatype error = TypeError

definition tournamentSize :: nat where
  "tournamentSize = 3"

text \<open>The loop that fills \<open>tournament\<close>: one draw and one array access for each round.\<close>

fun drawTournament ::
  "env \<Rightarrow> individual list \<Rightarrow> nat \<Rightarrow> world \<Rightarrow> individual option list \<times> world" where
  "drawTournament e pop 0 w = ([], w)"
| "drawTournament e pop (Suc k) w =
     (let (r, w1) = Math_random e w;
          idx = \<lfloor>r * real (length pop)\<rfloor>;
          (rest, w2) = drawTournament e pop k w1
      in (arrayGet pop idx # rest, w2))"

text \<open>
  \<open>tournament.sort(...)[0]\<close>: the sort moves \<open>undefined\<close> entries behind all others
  without calling the comparator, so the result is the first of the sorted defined
  entries, and \<open>undefined\<close> when there is none.
\<close>

definition tournamentSelect ::
  "env \<Rightarrow> individual list \<Rightarrow> world \<Rightarrow> individual option \<times> world" where
  "tournamentSelect e pop w =
     (let (tournament, w1) = drawTournament e pop tournamentSize w
      in (case sortJS byFitnessDesc [x. Some x \<leftarrow> tournament] of
            [] \<Rightarrow> None
          | x # _ \<Rightarrow> Some x, w1))"

text \<open>The elitism loop: \<open>{ ...population[i] }\<close> for \<open>i\<close> from 0 below \<open>eliteCount\<close>.\<close>

definition elites :: "individual list \<Rightarrow> int \<Rightarrow> individual list" where
  "elites pop eliteCount =
     map (\<lambda>i. case arrayGet pop (int i) of Some x \<Rightarrow> x | None \<Rightarrow> emptyObject)
       [0..<nat eliteCount]"

text \<open>
  The body of the \<open>while\<close> loop up to the prompt of the child. Reading \<open>.prompt\<close> of a
  parent that is \<open>undefined\<close> throws a \<open>TypeError\<close>; the second parent is read only
  when the crossover is made.
\<close>

definition offspring ::
  "env \<Rightarrow> individual list \<Rightarrow> real \<Rightarrow> real \<Rightarrow> world \<Rightarrow> error + (prompt \<times> world)" where
  "offspring e pop mRate cRate w =
     (let (parent1, w1) = tournamentSelect e pop w;
          (parent2, w2) = tournamentSelect e pop w1;
          (r, w3) = Math_random e w2
      in case (if r < cRate
               then (case (parent1, parent2) of
                       (Some p1, Some p2) \<Rightarrow> Inr (crossoverPrompts e (prompt p1) (prompt p2) w3)
                     | _ \<Rightarrow> Inl TypeError)
               else (case parent1 of
                       Some p1 \<Rightarrow> Inr (prompt p1, w3)
                     | None \<Rightarrow> Inl TypeError)) of
           Inl err \<Rightarrow> Inl err
         | Inr (child, w4) \<Rightarrow>
             (let (r2, w5) = Math_random e w4
              in if r2 < mRate then Inr (mutatePrompt e child 0.2 w5) else Inr (child, w5)))"

function fillPopulation ::
  "env \<Rightarrow> individual list \<Rightarrow> real \<Rightarrow> real \<Rightarrow> individual list \<Rightarrow> world
     \<Rightarrow> error + (individual list \<times> world)" where
  "fillPopulation e pop mRate cRate newPopulation w =
     (if length newPopulation < length pop
      then (case offspring e pop mRate cRate w of
              Inl err \<Rightarrow> Inl err
            | Inr (child, w1) \<Rightarrow>
                fillPopulation e pop mRate cRate
                  (newPopulation @ [\<lparr>prompt = child, fitness = Some 0\<rparr>]) w1)
      else Inr (newPopulation, w))"
  by pat_completeness auto
termination
  by (relation "measure (\<lambda>(e, pop, mRate, cRate, newPopulation, w).
        length pop - length newPopulation)") auto

declare fillPopulation.simps [simp del]

definition evolvePopulation ::
  "env \<Rightarrow> individual list \<Rightarrow> real \<Rightarrow> real \<Rightarrow> int \<Rightarrow> world
     \<Rightarrow> error + (individual list \<times> world)" where
  "evolvePopulation e pop mRate cRate eliteCount w =
     fillPopulation e pop mRate cRate (elites pop eliteCount) w"

subsection \<open>\<open>evolvePrompt\<close>\<close>

text \<open>
  The configuration after the defaults have been filled in; \<open>generations\<close> and
  \<open>populationSize\<close> are integers, and nothing in the source checks their sign.
\<close>

record config =
  basePrompt :: string
  fitnessFunction :: string
  generations :: int
  populationSize :: int
  mutationRate :: real
  crossoverRate :: real

record generationRecord =
  generation :: int
  fitnessG :: "real option"
  improvement :: "real option"

text \<open>The variables of \<open>evolvePrompt\<close>, with the world the run has reached.\<close>

record loop_state =
  gen :: int
  population :: "individual list"
  bestEver :: individual
  improvements :: "generationRecord list"
  io :: world

record evolutionResult =
  best :: prompt
  fitnessR :: "real option"
  generationsRun :: nat
  improvementsR :: "generationRecord list"

text \<open>Comparison and subtraction of numbers that may be \<open>undefined\<close>.\<close>

definition js_gt :: "real option \<Rightarrow> real option \<Rightarrow> bool" where
  "js_gt a b = (case (a, b) of (Some x, Some y) \<Rightarrow> x > y | _ \<Rightarrow> False)"

definition js_ge :: "real option \<Rightarrow> real option \<Rightarrow> bool" where
  "js_ge a b = (case (a, b) of (Some x, Some y) \<Rightarrow> x \<ge> y | _ \<Rightarrow> False)"

definition js_sub :: "real option \<Rightarrow> real option \<Rightarrow> real option" where
  "js_sub a b = (case (a, b) of (Some x, Some y) \<Rightarrow> Some (x - y) | _ \<Rightarrow> None)"

text \<open>\<open>improvements[improvements.length - 1]?.fitness || 0\<close>\<close>

definition lastFitnessOrZero :: "generationRecord list \<Rightarrow> real" where
  "lastFitnessOrZero imps =
     (case imps of
        [] \<Rightarrow> 0
      | _ \<Rightarrow> (case fitnessG (last imps) of Some v \<Rightarrow> v | None \<Rightarrow> 0))"

definition eliteCountOf :: "int \<Rightarrow> int" where
  "eliteCountOf n = max 2 \<lfloor>real_of_int n * 0.1\<rfloor>"

text \<open>The state after the declarations that precede the loop.\<close>

definition initialWorld :: world where
  "initialWorld = \<lparr>requests = [], draws = 0\<rparr>"

definition initialState :: "env \<Rightarrow> config \<Rightarrow> loop_state" where
  "initialState e cfg =
     (let (pop, w) = initializePopulation e (basePrompt cfg) (populationSize cfg) initialWorld
      in \<lparr>gen = 0, population = pop,
          bestEver = \<lparr>prompt = Some (basePrompt cfg), fitness = Some 0\<rparr>,
          improvements = [], io = w\<rparr>)"

text \<open>
  The first half of the loop body: evaluate, then track the best solution.
  \<open>currentBest\<close> is \<open>population[0]\<close>; reading its fitness throws when the population
  is empty.
\<close>

definition evaluateAndTrack :: "env \<Rightarrow> config \<Rightarrow> loop_state \<Rightarrow> error + loop_state" where
  "evaluateAndTrack e cfg st =
     (let (pop, w1) = evaluateFitness e (population st) (fitnessFunction cfg) (io st)
      in case pop of
           [] \<Rightarrow> Inl TypeError
         | currentBest # _ \<Rightarrow>
             Inr (if js_gt (fitness currentBest) (fitness (bestEver st))
                  then st\<lparr>population := pop, io := w1, bestEver := currentBest,
                          improvements := improvements st @
                            [\<lparr>generation = gen st,
                              fitnessG = fitness currentBest,
                              improvement =
                                js_sub (fitness currentBest)
                                  (Some (if gen st > 0
                                         then lastFitnessOrZero (improvements st)
                                         else 0))\<rparr>]\<rparr>
                  else st\<lparr>population := pop, io := w1\<rparr>))"

text \<open>\<open>currentBest.fitness >= 0.98\<close>, read after \<open>evaluateAndTrack\<close>.\<close>

definition converged :: "loop_state \<Rightarrow> bool" where
  "converged st =
     (case population st of
        [] \<Rightarrow> False
      | currentBest # _ \<Rightarrow> js_ge (fitness currentBest) (Some 0.98))"

text \<open>The second half of the loop body: the call of \<open>evolvePopulation\<close>.\<close>

definition reproduce :: "env \<Rightarrow> config \<Rightarrow> loop_state \<Rightarrow> error + loop_state" where
  "reproduce e cfg st =
     (case evolvePopulation e (population st) (mutationRate cfg) (crossoverRate cfg)
             (eliteCountOf (populationSize cfg)) (io st) of
        Inl err \<Rightarrow> Inl err
      | Inr (pop, w) \<Rightarrow> Inr (st\<lparr>population := pop, io := w\<rparr>))"

function generationLoop :: "env \<Rightarrow> config \<Rightarrow> loop_state \<Rightarrow> error + loop_state" where
  "generationLoop e cfg st =
     (if gen st < generations cfg
      then (case evaluateAndTrack e cfg st of
              Inl err \<Rightarrow> Inl err
            | Inr st1 \<Rightarrow>
                if converged st1 then Inr st1
                else (case reproduce e cfg st1 of
                        Inl err \<Rightarrow> Inl err
                      | Inr st2 \<Rightarrow> generationLoop e cfg (st2\<lparr>gen := gen st + 1\<rparr>)))
      else Inr st)"
  by pat_completeness auto
termination
  by (relation "measure (\<lambda>(e, cfg, st). nat (generations cfg - gen st))") auto

declare generationLoop.simps [simp del]

definition resultOf :: "loop_state \<Rightarrow> evolutionResult" where
  "resultOf st =
     \<lparr>best = prompt (bestEver st), fitnessR = fitness (bestEver st),
      generationsRun = length (improvements st), improvementsR = improvements st\<rparr>"

text \<open>The state in which the loop of a run ends, or the error the run throws.\<close>

definition evolvePromptRun :: "env \<Rightarrow> config \<Rightarrow> error + loop_state" where
  "evolvePromptRun e cfg = generationLoop e cfg (initialState e cfg)"

definition evolvePrompt :: "env \<Rightarrow> config \<Rightarrow> error + evolutionResult" where
  "evolvePrompt e cfg =
     (case evolvePromptRun e cfg of
        Inl err \<Rightarrow> Inl err
      | Inr st \<Rightarrow> Inr (resultOf st))"

subsection \<open>The points of a run\<close>

text \<open>
  \<open>atLoopHead\<close> holds for the states in which a run reaches the head of the loop:
  after the initialisation and after each reproduction step. \<open>atTracked\<close> holds for
  the states a run reaches after the tracking of the best solution, before the test for
  the early exit.
\<close>

inductive atLoopHead :: "env \<Rightarrow> config \<Rightarrow> loop_state \<Rightarrow> bool"
  and atTracked :: "env \<Rightarrow> config \<Rightarrow> loop_state \<Rightarrow> bool"
  for e :: env and cfg :: config where
  initial: "atLoopHead e cfg (initialState e cfg)"
| tracked: "atLoopHead e cfg st \<Longrightarrow> gen st < generations cfg
     \<Longrightarrow> evaluateAndTrack e cfg st = Inr st1 \<Longrightarrow> atTracked e cfg st1"
| reproduced: "atTracked e cfg st1 \<Longrightarrow> \<not> converged st1
     \<Longrightarrow> reproduce e cfg st1 = Inr st2 \<Longrightarrow> atLoopHead e cfg (st2\<lparr>gen := gen st1 + 1\<rparr>)"

subsection \<open>A variant of \<open>evolvePrompt\<close> without the last reproduction step\<close>

text \<open>
  This loop is not in the source. It is the loop of \<open>evolvePrompt\<close> with one change:
  the reproduction step is made only when another generation follows. The source is
  compared with it below.
\<close>

function generationLoopSkipLast :: "env \<Rightarrow> config \<Rightarrow> loop_state \<Rightarrow> error + loop_state" where
  "generationLoopSkipLast e cfg st =
     (if gen st < generations cfg
      then (case evaluateAndTrack e cfg st of
              Inl err \<Rightarrow> Inl err
            | Inr st1 \<Rightarrow>
                if converged st1 then Inr st1
                else if gen st + 1 < generations cfg
                then (case reproduce e cfg st1 of
                        Inl err \<Rightarrow> Inl err
                      | Inr st2 \<Rightarrow> generationLoopSkipLast e cfg (st2\<lparr>gen := gen st + 1\<rparr>))
                else Inr (st1\<lparr>gen := gen st + 1\<rparr>))
      else Inr st)"
  by pat_completeness auto
termination
  by (relation "measure (\<lambda>(e, cfg, st). nat (generations cfg - gen st))") auto

declare generationLoopSkipLast.simps [simp del]

definition evolvePromptSkipLast :: "env \<Rightarrow> config \<Rightarrow> error + evolutionResult" where
  "evolvePromptSkipLast e cfg =
     (case generationLoopSkipLast e cfg (initialState e cfg) of
        Inl err \<Rightarrow> Inl err
      | Inr st \<Rightarrow> Inr (resultOf st))"

subsection \<open>Concrete responses, services and configurations\<close>

text \<open>A response that names all five methodological terms, and one that earns every bonus.\<close>

definition allTermsResponse :: string where
  "allTermsResponse = ''induktiv deduktiv Ankerbeispiel Dimension Eigenschaft''"

definition richResponse :: string where
  "richResponse =
     ''[Code Code Code Code] da induktiv deduktiv Ankerbeispiel Dimension Eigenschaft''"

text \<open>A service that always answers with \<open>richResponse\<close>, and one whose calls all fail.\<close>

definition richService :: env where
  "richService = \<lparr>service = (\<lambda>n req. Some richResponse), rnd = (\<lambda>n. 0)\<rparr>"

definition failingService :: env where
  "failingService = \<lparr>service = (\<lambda>n req. None), rnd = (\<lambda>n. 0)\<rparr>"

text \<open>
  A service whose first call answers with an opening bracket and whose later calls
  fail, and a service that answers every call with an opening bracket.
\<close>

definition firstCallService :: env where
  "firstCallService = \<lparr>service = (\<lambda>n req. if n = 0 then Some ''['' else None), rnd = (\<lambda>n. 0)\<rparr>"

definition bracketService :: env where
  "bracketService = \<lparr>service = (\<lambda>n req. Some ''[''), rnd = (\<lambda>n. 0)\<rparr>"

text \<open>Configurations with one individual and one generation, and with two and two.\<close>

definition singleConfig :: config where
  "singleConfig =
     \<lparr>basePrompt = ''p'', fitnessFunction = ''quality'', generations = 1,
      populationSize = 1, mutationRate = 0.1, crossoverRate = 0.7\<rparr>"

definition pairConfig :: config where
  "pairConfig =
     \<lparr>basePrompt = ''p'', fitnessFunction = ''quality'', generations = 2,
      populationSize = 2, mutationRate = 0.1, crossoverRate = 0.7\<rparr>"

text \<open>
  The state in which the run of \<open>bracketService\<close> with \<open>pairConfig\<close> ends, and the
  state of the run of \<open>richService\<close> with \<open>pairConfig\<close> after the first tracking step.
\<close>

definition bracketFinal :: loop_state where
  "bracketFinal =
     \<lparr>gen = 2,
      population = [\<lparr>prompt = Some ''p'', fitness = Some (1501 / 7500)\<rparr>,
                    \<lparr>prompt = Some ''['', fitness = Some (1501 / 7500)\<rparr>],
      bestEver = \<lparr>prompt = Some ''p'', fitness = Some (1501 / 7500)\<rparr>,
      improvements = [\<lparr>generation = 0, fitnessG = Some (1501 / 7500),
                       improvement = Some (1501 / 7500)\<rparr>],
      io = \<lparr>requests = [MutationRequest (Some 0) 30 (Some ''p''),
                FitnessRequest (Some ''p''), FitnessRequest (Some ''[''),
                FitnessRequest (Some ''p''), FitnessRequest (Some ''['')], draws = 1\<rparr>\<rparr>"

definition richTracked :: loop_state where
  "richTracked =
     \<lparr>gen = 0,
      population = [\<lparr>prompt = Some ''p'', fitness = Some 1\<rparr>,
                    \<lparr>prompt = Some richResponse, fitness = Some 1\<rparr>],
      bestEver = \<lparr>prompt = Some ''p'', fitness = Some 1\<rparr>,
      improvements = [\<lparr>generation = 0, fitnessG = Some 1, improvement = Some 1\<rparr>],
      io = \<lparr>requests = [MutationRequest (Some 0) 30 (Some ''p''),
                FitnessRequest (Some ''p''), FitnessRequest (Some richResponse)],
            draws = 1\<rparr>\<rparr>"

text \<open>
  The run of \<open>firstCallService\<close> with \<open>singleConfig\<close>: the state after the tracking
  step of generation 0, and the state in which the run ends.
\<close>

definition singleTracked :: loop_state where
  "singleTracked =
     \<lparr>gen = 0,
      population = [\<lparr>prompt = Some ''p'', fitness = Some (1501 / 7500)\<rparr>],
      bestEver = \<lparr>prompt = Some ''p'', fitness = Some (1501 / 7500)\<rparr>,
      improvements = [\<lparr>generation = 0, fitnessG = Some (1501 / 7500),
                       improvement = Some (1501 / 7500)\<rparr>],
      io = \<lparr>requests = [FitnessRequest (Some ''p'')], draws = 0\<rparr>\<rparr>"

definition singleFinal :: loop_state where
  "singleFinal =
     \<lparr>gen = 1,
      population = [\<lparr>prompt = Some ''p'', fitness = Some (1501 / 7500)\<rparr>,
                    \<lparr>prompt = None, fitness = None\<rparr>],
      bestEver = \<lparr>prompt = Some ''p'', fitness = Some (1501 / 7500)\<rparr>,
      improvements = [\<lparr>generation = 0, fitnessG = Some (1501 / 7500),
                       improvement = Some (1501 / 7500)\<rparr>],
      io = \<lparr>requests = [FitnessRequest (Some ''p'')], draws = 0\<rparr>\<rparr>"

subsection \<open>Invariants of a run\<close>

text \<open>An individual that has been evaluated carries a fitness between 0 and 1.\<close>

definition scored :: "individual \<Rightarrow> bool" where
  "scored x = (\<exists>f. fitness x = Some f \<and> 0 \<le> f \<and> f \<le> 1)"

text \<open>
  The records of the improvements log are strictly increasing in generation and fitness.
\<close>

definition recordsIncreasing :: "generationRecord list \<Rightarrow> bool" where
  "recordsIncreasing imps =
     sorted_wrt (\<lambda>a b. generation a < generation b \<and> js_gt (fitnessG b) (fitnessG a)) imps"

text \<open>
  What the tracking step keeps true of \<open>bestEver\<close> and \<open>improvements\<close>, where \<open>g\<close>
  bounds the generations recorded so far.
\<close>

definition trackingInv :: "int \<Rightarrow> loop_state \<Rightarrow> bool" where
  "trackingInv g st =
     (\<exists>b. fitness (bestEver st) = Some b \<and> 0 \<le> b
        \<and> lastFitnessOrZero (improvements st) = b
        \<and> (improvements st \<noteq> [] \<longrightarrow>
              fitnessG (last (improvements st)) = Some b
            \<and> improvement (hd (improvements st)) = fitnessG (hd (improvements st)))
        \<and> (\<forall>r \<in> set (improvements st).
              0 \<le> generation r \<and> generation r < g
            \<and> (\<exists>f. fitnessG r = Some f \<and> 0 < f \<and> f \<le> b))
        \<and> recordsIncreasing (improvements st)
        \<and> int (length (improvements st)) \<le> g \<and> 0 \<le> g)"

definition headInv :: "loop_state \<Rightarrow> bool" where
  "headInv st =
     (trackingInv (gen st) st \<and> population st \<noteq> []
      \<and> \<not> js_ge (fitness (bestEver st)) (Some 0.98))"

definition trackedInv :: "loop_state \<Rightarrow> bool" where
  "trackedInv st =
     (trackingInv (gen st + 1) st \<and> population st \<noteq> []
      \<and> (js_ge (fitness (bestEver st)) (Some 0.98) \<longrightarrow> converged st))"

text \<open>
  Every fitness evaluation of the run yields 0: each member of each evaluated
  population has fitness 0.
\<close>

definition allEvaluationsZero :: "env \<Rightarrow> config \<Rightarrow> bool" where
  "allEvaluationsZero e cfg =
     (\<forall>st1. atTracked e cfg st1 \<longrightarrow> (\<forall>x \<in> set (population st1). fitness x = Some 0))"

text \<open>
  A service under which this holds for every configuration: each call for a fitness
  evaluation fails, or answers with a text that scores 0.
\<close>

definition serviceScoresZero :: "env \<Rightarrow> bool" where
  "serviceScoresZero e =
     (\<forall>n p. case service e n (FitnessRequest p) of
               None \<Rightarrow> True
             | Some result \<Rightarrow> scoreResponse result = 0)"

section \<open>The fitness evaluator\<close>

lemma structureBonus_nonneg: "0 \<le> structureBonus r"
  by (simp add: structureBonus_def)

lemma codingBonus_nonneg: "0 \<le> codingBonus r"
  by (simp add: codingBonus_def)

lemma reasoningBonus_nonneg: "0 \<le> reasoningBonus r"
  by (simp add: reasoningBonus_def)

lemma methodBonus_nonneg: "0 \<le> methodBonus r"
  by (simp add: methodBonus_def)

lemma lengthBonus_nonneg: "0 \<le> lengthBonus r"
  by (simp add: lengthBonus_def)

lemma fitnessSum_nonneg: "0 \<le> fitnessSum r"
  using structureBonus_nonneg [of r] codingBonus_nonneg [of r] reasoningBonus_nonneg [of r]
    methodBonus_nonneg [of r] lengthBonus_nonneg [of r]
  by (simp add: fitnessSum_def)

lemma scoreResponse_range: "0 \<le> scoreResponse r \<and> scoreResponse r \<le> 1"
  using fitnessSum_nonneg [of r] by (simp add: scoreResponse_def)

lemma calculatePromptFitness_fst:
  "fst (calculatePromptFitness e p ft w) =
     (case service e (length (requests w)) (FitnessRequest p) of
        Some result \<Rightarrow> scoreResponse result | None \<Rightarrow> 0)"
  by (simp add: calculatePromptFitness_def messages_create_def split: option.splits)

lemma calculatePromptFitness_snd:
  "snd (calculatePromptFitness e p ft w) = w\<lparr>requests := requests w @ [FitnessRequest p]\<rparr>"
  by (simp add: calculatePromptFitness_def messages_create_def split: option.splits)

lemma calculatePromptFitness_range:
  "0 \<le> fst (calculatePromptFitness e p ft w) \<and> fst (calculatePromptFitness e p ft w) \<le> 1"
  using scoreResponse_range
  by (simp add: calculatePromptFitness_fst split: option.splits)

text \<open>
  Claim C6. Whatever the prompt and whatever the service does (any response text, or a
  failure), the fitness that \<open>calculatePromptFitness\<close> returns lies between 0 and 1.
  The theorem after it shows a response whose sum of sub-signals is above 1 and whose
  fitness is 1.
\<close>

theorem calculatePromptFitness_clamped:
  "0 \<le> fst (calculatePromptFitness e p ft w) \<and> fst (calculatePromptFitness e p ft w) \<le> 1"
  by (rule calculatePromptFitness_range)

text \<open>A response whose sum of sub-signals is above 1; its fitness is 1.\<close>

lemma richResponse_sum: "fitnessSum richResponse = 1263 / 1250"
  unfolding richResponse_def by code_simp

theorem calculatePromptFitness_clamped_witness:
  "1 < fitnessSum richResponse \<and>
   fst (calculatePromptFitness richService (Some ''p'') ''quality'' initialWorld) = 1"
  using calculatePromptFitness_clamped [of richService "Some ''p''" "''quality''" initialWorld]
  by (simp add: calculatePromptFitness_fst richService_def scoreResponse_def richResponse_sum)

text \<open>
  Claim C5 says that the bonus for the methodological terms is capped below the sum of
  the per-term bonuses. The source adds \<open>methodScore * 0.08\<close> without a cap: a response
  that names all five terms earns the whole sum \<open>5 * 0.08\<close>, twice the weight 0.2 that
  \<open>GENESIS_CONFIG.fitnessMetrics\<close> documents for this sub-signal.
\<close>

theorem methodBonus_reaches_full_sum:
  "methodScore allTermsResponse = 5 \<and>
   methodBonus allTermsResponse = real (length methodTerms) * 0.08 \<and>
   methodBonus allTermsResponse = 2 * metricWeight"
proof -
  have "methodScore allTermsResponse = 5"
    unfolding allTermsResponse_def by code_simp
  then show ?thesis
    by (simp add: methodBonus_def methodTerms_def metricWeight_def)
qed

section \<open>Failures of the service\<close>

text \<open>
  Claim C8. When the call to the service fails, \<open>mutatePrompt\<close> returns its input prompt,
  \<open>crossoverPrompts\<close> returns one of the two parents and \<open>calculatePromptFitness\<close>
  returns 0. Each of the three returns a value: the \<open>try\<close> block encloses the call and
  everything after it, so none of them has an error to hand to its caller.
\<close>

theorem service_failure_fallbacks:
  assumes "\<forall>req. service e (length (requests w)) req = None"
  shows "fst (mutatePrompt e p strength w) = p
       \<and> (fst (crossoverPrompts e parent1 parent2 w) = parent1
            \<or> fst (crossoverPrompts e parent1 parent2 w) = parent2)
       \<and> fst (calculatePromptFitness e p ft w) = 0"
  using assms
  by (simp add: mutatePrompt_def crossoverPrompts_def calculatePromptFitness_fst
      messages_create_def Math_random_def Let_def split: prod.splits)

theorem service_failure_fallbacks_witness:
  "(\<forall>req. service failingService (length (requests initialWorld)) req = None)
   \<and> fst (mutatePrompt failingService (Some ''p'') 0.3 initialWorld) = Some ''p''
   \<and> (fst (crossoverPrompts failingService (Some ''a'') (Some ''b'') initialWorld) = Some ''a''
        \<or> fst (crossoverPrompts failingService (Some ''a'') (Some ''b'') initialWorld) = Some ''b'')
   \<and> fst (calculatePromptFitness failingService (Some ''p'') ''quality'' initialWorld) = 0"
proof -
  have h: "\<forall>req. service failingService (length (requests initialWorld)) req = None"
    by (simp add: failingService_def)
  show ?thesis
    using h service_failure_fallbacks [OF h, of "Some ''p''" "0.3" "Some ''a''" "Some ''b''" "''quality''"]
    by simp
qed

section \<open>Populations\<close>

lemma insertSorted_length: "length (insertSorted cmp x ys) = Suc (length ys)"
  by (induction ys) auto

lemma sortJS_length: "length (sortJS cmp xs) = length xs"
  by (induction xs) (auto simp: insertSorted_length)

lemma insertSorted_set: "set (insertSorted cmp x ys) = insert x (set ys)"
  by (induction ys) auto

lemma sortJS_set: "set (sortJS cmp xs) = set xs"
  by (induction xs) (auto simp: insertSorted_set)

lemma sortJS_Nil_iff: "sortJS cmp xs = [] \<longleftrightarrow> xs = []"
  using sortJS_length [of cmp xs] by (metis length_0_conv)

lemma evaluateAll_length: "length (fst (evaluateAll e xs ft w)) = length xs"
  by (induction xs arbitrary: w) (simp_all add: Let_def split_def)

lemma evaluateAll_scored: "y \<in> set (fst (evaluateAll e xs ft w)) \<Longrightarrow> scored y"
proof (induction xs arbitrary: w)
  case Nil
  then show ?case by simp
next
  case (Cons x xs)
  obtain f w1 where c: "calculatePromptFitness e (prompt x) ft w = (f, w1)"
    by (cases "calculatePromptFitness e (prompt x) ft w")
  have f: "0 \<le> f \<and> f \<le> 1"
    using calculatePromptFitness_range [of e "prompt x" ft w] c by simp
  from Cons.prems c have "y = x\<lparr>fitness := Some f\<rparr> \<or> y \<in> set (fst (evaluateAll e xs ft w1))"
    by (auto simp: Let_def split_def)
  then show ?case
    using f Cons.IH [of w1] by (auto simp: scored_def)
qed

lemma evaluateFitness_length: "length (fst (evaluateFitness e pop ft w)) = length pop"
  using evaluateAll_length [of e pop ft w]
  by (simp add: evaluateFitness_def sortJS_length split_def Let_def)

lemma evaluateFitness_scored: "y \<in> set (fst (evaluateFitness e pop ft w)) \<Longrightarrow> scored y"
  using evaluateAll_scored [of y e pop ft w]
  by (simp add: evaluateFitness_def sortJS_set split_def Let_def)

lemma initializeLoop_length:
  "length (fst (initializeLoop e bp n i pop w)) = length pop + nat (n - i)"
proof (induction e bp n i pop w rule: initializeLoop.induct)
  case (1 e bp n i pop w)
  show ?case
  proof (cases "i < n")
    case True
    obtain v w1 where m: "mutatePrompt e (Some bp) 0.3 w = (v, w1)"
      by (cases "mutatePrompt e (Some bp) 0.3 w")
    have "length (fst (initializeLoop e bp n (i + 1) (pop @ [\<lparr>prompt = v, fitness = Some 0\<rparr>]) w1))
        = length (pop @ [\<lparr>prompt = v, fitness = Some 0\<rparr>]) + nat (n - (i + 1))"
      using "1.IH" [OF True m [symmetric] refl] .
    then show ?thesis
      using True m by (subst initializeLoop.simps) (simp add: nat_diff_distrib)
  next
    case False
    then show ?thesis by (subst initializeLoop.simps) simp
  qed
qed

lemma initializePopulation_length:
  "length (fst (initializePopulation e bp n w)) = 1 + nat (n - 1)"
  by (simp add: initializePopulation_def initializeLoop_length)

lemma eliteCountOf_ge: "2 \<le> eliteCountOf n"
  by (simp add: eliteCountOf_def)

lemma eliteCountOf_le: "2 \<le> n \<Longrightarrow> eliteCountOf n \<le> n"
proof -
  assume n: "2 \<le> n"
  have "real_of_int n * 0.1 \<le> real_of_int n" using n by simp
  then have "\<lfloor>real_of_int n * 0.1\<rfloor> \<le> n" by (simp add: floor_le_iff)
  then show ?thesis using n by (simp add: eliteCountOf_def)
qed

lemma elites_length: "length (elites pop k) = nat k"
  by (simp add: elites_def)

lemma fillPopulation_length:
  "fillPopulation e pop mRate cRate new w = Inr (res, w') \<Longrightarrow>
     length res = max (length new) (length pop)"
proof (induction e pop mRate cRate new w rule: fillPopulation.induct)
  case (1 e pop mRate cRate new w)
  show ?case
  proof (cases "length new < length pop")
    case True
    from "1.prems" True obtain child w1 where
      o: "offspring e pop mRate cRate w = Inr (child, w1)" and
      r: "fillPopulation e pop mRate cRate (new @ [\<lparr>prompt = child, fitness = Some 0\<rparr>]) w1 = Inr (res, w')"
      by (subst (asm) fillPopulation.simps) (auto split: sum.splits)
    have "length res = max (length (new @ [\<lparr>prompt = child, fitness = Some 0\<rparr>])) (length pop)"
      using "1.IH" [OF True o refl r] .
    then show ?thesis using True by simp
  next
    case False
    then show ?thesis using "1.prems" by (subst (asm) fillPopulation.simps) auto
  qed
qed

lemma evolvePopulation_length:
  "evolvePopulation e pop mRate cRate k w = Inr (res, w') \<Longrightarrow>
     length res = max (nat k) (length pop)"
  using fillPopulation_length [of e pop mRate cRate "elites pop k" w res w']
  by (simp add: evolvePopulation_def elites_length)


section \<open>No error when the random numbers are valid\<close>

lemma arrayGet_random:
  assumes "0 \<le> r" "r < 1" "pop \<noteq> []"
  shows "\<exists>x. arrayGet pop \<lfloor>r * real (length pop)\<rfloor> = Some x \<and> x \<in> set pop"
proof -
  have len: "0 < real (length pop)" using assms(3) by simp
  have "0 \<le> r * real (length pop)" using assms(1) by simp
  then have lo: "0 \<le> \<lfloor>r * real (length pop)\<rfloor>" by simp
  have "r * real (length pop) < real (length pop)" using assms(2) len by simp
  then have hi: "\<lfloor>r * real (length pop)\<rfloor> < int (length pop)"
    by (simp add: floor_less_iff)
  have "nat \<lfloor>r * real (length pop)\<rfloor> < length pop"
    using lo hi nat_less_iff by blast
  then show ?thesis using lo hi by (simp add: arrayGet_def)
qed

lemma drawTournament_defined:
  assumes "valid_random e" "pop \<noteq> []"
  shows "t \<in> set (fst (drawTournament e pop k w)) \<Longrightarrow> \<exists>x. t = Some x \<and> x \<in> set pop"
proof (induction k arbitrary: w)
  case 0
  then show ?case by simp
next
  case (Suc k)
  let ?r = "rnd e (draws w)"
  have r: "0 \<le> ?r" "?r < 1" using assms(1) by (simp_all add: valid_random_def)
  from Suc.prems have "t = arrayGet pop \<lfloor>?r * real (length pop)\<rfloor>
      \<or> t \<in> set (fst (drawTournament e pop k (w\<lparr>draws := draws w + 1\<rparr>)))"
    by (auto simp: Let_def split_def Math_random_def)
  then show ?case
    using arrayGet_random [OF r assms(2)] Suc.IH by auto
qed

lemma drawTournament_length: "length (fst (drawTournament e pop k w)) = k"
  by (induction k arbitrary: w) (simp_all add: Let_def split_def)

lemma tournamentSelect_defined:
  assumes "valid_random e" "pop \<noteq> []"
  shows "\<exists>x. fst (tournamentSelect e pop w) = Some x \<and> x \<in> set pop"
proof -
  let ?t = "fst (drawTournament e pop tournamentSize w)"
  let ?d = "[x. Some x \<leftarrow> ?t]"
  have all: "\<And>t. t \<in> set ?t \<Longrightarrow> \<exists>x. t = Some x \<and> x \<in> set pop"
    using drawTournament_defined [OF assms] by blast
  have "?t \<noteq> []"
    using drawTournament_length [of e pop tournamentSize w] by (auto simp: tournamentSize_def)
  then obtain t ts where t: "?t = t # ts" by (cases ?t) auto
  then obtain x where "t = Some x" using all [of t] by auto
  then have ne: "?d \<noteq> []" using t by simp
  have sub: "set ?d \<subseteq> set pop" using all by (auto split: option.splits)
  from ne have "sortJS byFitnessDesc ?d \<noteq> []" by (simp add: sortJS_Nil_iff)
  then obtain y ys where y: "sortJS byFitnessDesc ?d = y # ys"
    by (cases "sortJS byFitnessDesc ?d") auto
  then have "y \<in> set ?d" using sortJS_set [of byFitnessDesc ?d] by auto
  then have "y \<in> set pop" using sub by blast
  then show ?thesis using y by (simp add: tournamentSelect_def Let_def split_def)
qed

lemma offspring_succeeds:
  assumes "valid_random e" "pop \<noteq> []"
  shows "\<exists>child w'. offspring e pop mRate cRate w = Inr (child, w')"
proof -
  obtain p1 where p1: "fst (tournamentSelect e pop w) = Some p1"
    using tournamentSelect_defined [OF assms, of w] by blast
  obtain p2 where p2: "fst (tournamentSelect e pop (snd (tournamentSelect e pop w))) = Some p2"
    using tournamentSelect_defined [OF assms, of "snd (tournamentSelect e pop w)"] by blast
  show ?thesis
    using p1 p2 by (simp add: offspring_def Let_def split_def)
qed

lemma fillPopulation_succeeds:
  "valid_random e \<Longrightarrow> pop \<noteq> [] \<Longrightarrow>
     \<exists>res w'. fillPopulation e pop mRate cRate new w = Inr (res, w')"
proof (induction e pop mRate cRate new w rule: fillPopulation.induct)
  case (1 e pop mRate cRate new w)
  show ?case
  proof (cases "length new < length pop")
    case True
    obtain child w1 where o: "offspring e pop mRate cRate w = Inr (child, w1)"
      using offspring_succeeds [OF "1.prems"] by blast
    have "\<exists>res w'. fillPopulation e pop mRate cRate
            (new @ [\<lparr>prompt = child, fitness = Some 0\<rparr>]) w1 = Inr (res, w')"
      using "1.IH" [OF True o refl "1.prems"] .
    then show ?thesis
      using True o by (subst fillPopulation.simps) simp
  next
    case False
    then show ?thesis by (subst fillPopulation.simps) simp
  qed
qed

lemma evolvePopulation_succeeds:
  "valid_random e \<Longrightarrow> pop \<noteq> [] \<Longrightarrow>
     \<exists>res w'. evolvePopulation e pop mRate cRate k w = Inr (res, w')"
  by (simp add: evolvePopulation_def fillPopulation_succeeds)

section \<open>The two halves of the loop body\<close>

lemma evaluateAndTrack_succeeds:
  "population st \<noteq> [] \<Longrightarrow> \<exists>st1. evaluateAndTrack e cfg st = Inr st1"
proof -
  assume ne: "population st \<noteq> []"
  have "fst (evaluateFitness e (population st) (fitnessFunction cfg) (io st)) \<noteq> []"
    using evaluateFitness_length [of e "population st" "fitnessFunction cfg" "io st"] ne
    by (metis length_0_conv)
  then show ?thesis
    by (auto simp: evaluateAndTrack_def Let_def split_def split: list.splits)
qed

lemma evaluateAndTrack_frame:
  assumes "evaluateAndTrack e cfg st = Inr st1"
  shows "gen st1 = gen st"
    and "population st1 = fst (evaluateFitness e (population st) (fitnessFunction cfg) (io st))"
    and "io st1 = snd (evaluateFitness e (population st) (fitnessFunction cfg) (io st))"
    and "population st1 \<noteq> []"
  using assms
  by (auto simp: evaluateAndTrack_def Let_def split_def split: list.splits if_splits)

lemma reproduce_frame:
  assumes "reproduce e cfg st1 = Inr st2"
  shows "gen st2 = gen st1" and "bestEver st2 = bestEver st1"
    and "improvements st2 = improvements st1"
    and "length (population st2) =
           max (nat (eliteCountOf (populationSize cfg))) (length (population st1))"
  using assms evolvePopulation_length
  by (auto simp: reproduce_def split: sum.splits prod.splits)

lemma reproduce_succeeds:
  "valid_random e \<Longrightarrow> population st1 \<noteq> [] \<Longrightarrow> \<exists>st2. reproduce e cfg st1 = Inr st2"
  using evolvePopulation_succeeds [of e "population st1" "mutationRate cfg" "crossoverRate cfg"
      "eliteCountOf (populationSize cfg)" "io st1"]
  by (auto simp: reproduce_def)

lemma reproduce_nonempty:
  "reproduce e cfg st1 = Inr st2 \<Longrightarrow> population st2 \<noteq> []"
  using reproduce_frame(4) [of e cfg st1 st2] eliteCountOf_ge [of "populationSize cfg"]
  by auto

section \<open>The tracking of the best solution\<close>

lemma trackingInv_mono: "trackingInv g st \<Longrightarrow> g \<le> g' \<Longrightarrow> trackingInv g' st"
  unfolding trackingInv_def by fastforce

lemma initialState_fields:
  "gen (initialState e cfg) = 0"
  "improvements (initialState e cfg) = []"
  "bestEver (initialState e cfg) = \<lparr>prompt = Some (basePrompt cfg), fitness = Some 0\<rparr>"
  "population (initialState e cfg) =
     fst (initializePopulation e (basePrompt cfg) (populationSize cfg) initialWorld)"
  by (simp_all add: initialState_def split_def Let_def)

lemma initialState_nonempty: "population (initialState e cfg) \<noteq> []"
proof -
  have "0 < length (fst (initializePopulation e (basePrompt cfg) (populationSize cfg) initialWorld))"
    by (subst initializePopulation_length) simp
  then show ?thesis by (auto simp: initialState_fields)
qed

lemma headInv_initial: "headInv (initialState e cfg)"
  by (simp add: headInv_def trackingInv_def initialState_fields(1,2,3) initialState_nonempty
      lastFitnessOrZero_def recordsIncreasing_def js_ge_def)

text \<open>The outcome of the tracking step, read off the evaluated population.\<close>

lemma evaluateAndTrack_cases:
  assumes "evaluateAndTrack e cfg st = Inr st1"
  shows "\<exists>currentBest rest f.
    population st1 = currentBest # rest \<and> fitness currentBest = Some f \<and> 0 \<le> f \<and> f \<le> 1
    \<and> gen st1 = gen st
    \<and> (js_gt (Some f) (fitness (bestEver st)) \<longrightarrow>
         bestEver st1 = currentBest \<and>
         improvements st1 = improvements st @
           [\<lparr>generation = gen st, fitnessG = Some f,
             improvement = Some (f - (if gen st > 0 then lastFitnessOrZero (improvements st) else 0))\<rparr>])
    \<and> (\<not> js_gt (Some f) (fitness (bestEver st)) \<longrightarrow>
         bestEver st1 = bestEver st \<and> improvements st1 = improvements st)"
proof -
  let ?pop = "fst (evaluateFitness e (population st) (fitnessFunction cfg) (io st))"
  from assms obtain currentBest rest where p: "?pop = currentBest # rest"
    by (cases ?pop) (auto simp: evaluateAndTrack_def Let_def split_def)
  have "scored currentBest"
    using evaluateFitness_scored [of currentBest e "population st" "fitnessFunction cfg" "io st"] p
    by simp
  then obtain f where f: "fitness currentBest = Some f" "0 \<le> f" "f \<le> 1"
    by (auto simp: scored_def)
  have "population st1 = currentBest # rest" "gen st1 = gen st"
    using assms p by (auto simp: evaluateAndTrack_def Let_def split_def split: if_splits)
  moreover have "js_gt (Some f) (fitness (bestEver st)) \<longrightarrow>
       bestEver st1 = currentBest \<and>
       improvements st1 = improvements st @
         [\<lparr>generation = gen st, fitnessG = Some f,
           improvement = Some (f - (if gen st > 0 then lastFitnessOrZero (improvements st) else 0))\<rparr>]"
    using assms p f by (auto simp: evaluateAndTrack_def Let_def split_def js_sub_def)
  moreover have "\<not> js_gt (Some f) (fitness (bestEver st)) \<longrightarrow>
       bestEver st1 = bestEver st \<and> improvements st1 = improvements st"
    using assms p f by (auto simp: evaluateAndTrack_def Let_def split_def)
  ultimately show ?thesis using f by blast
qed

lemma lastFitnessOrZero_snoc:
  "lastFitnessOrZero (imps @ [r]) = (case fitnessG r of Some v \<Rightarrow> v | None \<Rightarrow> 0)"
  by (cases imps) (simp_all add: lastFitnessOrZero_def)

lemma trackedInv_step:
  assumes inv: "headInv st" and ev: "evaluateAndTrack e cfg st = Inr st1"
  shows "trackedInv st1"
proof -
  from inv obtain b where b: "fitness (bestEver st) = Some b" "0 \<le> b" "b < 0.98"
    and last: "lastFitnessOrZero (improvements st) = b"
    and ne: "improvements st \<noteq> [] \<Longrightarrow>
              fitnessG (last (improvements st)) = Some b
            \<and> improvement (hd (improvements st)) = fitnessG (hd (improvements st))"
    and recs: "\<And>r. r \<in> set (improvements st) \<Longrightarrow>
              0 \<le> generation r \<and> generation r < gen st
            \<and> (\<exists>f. fitnessG r = Some f \<and> 0 < f \<and> f \<le> b)"
    and incr: "recordsIncreasing (improvements st)"
    and len: "int (length (improvements st)) \<le> gen st" and g0: "0 \<le> gen st"
    unfolding headInv_def trackingInv_def js_ge_def by (auto simp: not_le)
  obtain currentBest rest f where
    pop: "population st1 = currentBest # rest" and f: "fitness currentBest = Some f" "0 \<le> f" "f \<le> 1"
    and g: "gen st1 = gen st"
    and up: "js_gt (Some f) (fitness (bestEver st)) \<longrightarrow>
       bestEver st1 = currentBest \<and>
       improvements st1 = improvements st @
         [\<lparr>generation = gen st, fitnessG = Some f,
           improvement = Some (f - (if gen st > 0 then lastFitnessOrZero (improvements st) else 0))\<rparr>]"
    and keep: "\<not> js_gt (Some f) (fitness (bestEver st)) \<longrightarrow>
       bestEver st1 = bestEver st \<and> improvements st1 = improvements st"
    using evaluateAndTrack_cases [OF ev] by blast
  show ?thesis
  proof (cases "f > b")
    case True
    let ?r = "\<lparr>generation = gen st, fitnessG = Some f,
           improvement = Some (f - (if gen st > 0 then lastFitnessOrZero (improvements st) else 0))\<rparr>"
    from True b up have best: "bestEver st1 = currentBest"
      and imps: "improvements st1 = improvements st @ [?r]"
      by (simp_all add: js_gt_def)
    have first: "improvement (hd (improvements st1)) = fitnessG (hd (improvements st1))"
    proof (cases "improvements st")
      case Nil
      then show ?thesis using imps last by (simp add: lastFitnessOrZero_def)
    next
      case (Cons a as)
      then show ?thesis using imps ne by simp
    qed
    have order: "recordsIncreasing (improvements st1)"
      unfolding imps recordsIncreasing_def sorted_wrt_append
      using incr recs True by (fastforce simp: recordsIncreasing_def js_gt_def)
    have bound: "\<And>r. r \<in> set (improvements st1) \<Longrightarrow>
              0 \<le> generation r \<and> generation r < gen st1 + 1
            \<and> (\<exists>f'. fitnessG r = Some f' \<and> 0 < f' \<and> f' \<le> f)"
      using recs True b g0 g unfolding imps by fastforce
    have "trackingInv (gen st1 + 1) st1"
      unfolding trackingInv_def
      using best f first order bound len g0 g
      by (intro exI [of _ f]) (auto simp: imps lastFitnessOrZero_snoc)
    moreover have "js_ge (fitness (bestEver st1)) (Some 0.98) \<longrightarrow> converged st1"
      using best pop by (simp add: converged_def)
    ultimately show ?thesis using pop by (simp add: trackedInv_def)
  next
    case False
    with b keep have same: "bestEver st1 = bestEver st" "improvements st1 = improvements st"
      by (simp_all add: js_gt_def)
    have "trackingInv (gen st) st" using inv by (simp add: headInv_def)
    then have "trackingInv (gen st1 + 1) st" using g by (auto intro: trackingInv_mono)
    then have "trackingInv (gen st1 + 1) st1"
      using same by (simp add: trackingInv_def)
    moreover have "\<not> js_ge (fitness (bestEver st1)) (Some 0.98)"
      using same b by (simp add: js_ge_def)
    ultimately show ?thesis using pop by (simp add: trackedInv_def)
  qed
qed

lemma headInv_step:
  assumes inv: "trackedInv st1" and nc: "\<not> converged st1"
    and re: "reproduce e cfg st1 = Inr st2"
  shows "headInv (st2\<lparr>gen := gen st1 + 1\<rparr>)"
proof -
  have "trackingInv (gen st1 + 1) st1" using inv by (simp add: trackedInv_def)
  then have "trackingInv (gen st1 + 1) (st2\<lparr>gen := gen st1 + 1\<rparr>)"
    using reproduce_frame(2,3) [OF re] by (simp add: trackingInv_def)
  moreover have "\<not> js_ge (fitness (bestEver st2)) (Some 0.98)"
    using inv nc reproduce_frame(2) [OF re] by (auto simp: trackedInv_def)
  ultimately show ?thesis
    using reproduce_nonempty [OF re] by (simp add: headInv_def)
qed

lemma reachable_invariants:
  "atLoopHead e cfg st \<Longrightarrow> headInv st"
  "atTracked e cfg st1 \<Longrightarrow> trackedInv st1"
proof (induction rule: atLoopHead_atTracked.inducts)
  case initial
  show ?case by (rule headInv_initial)
next
  case (tracked st st1)
  then show ?case by (auto intro: trackedInv_step)
next
  case (reproduced st1 st2)
  then show ?case by (auto intro: headInv_step)
qed

section \<open>Runs and their points\<close>

text \<open>The remainder of a run from a state after the tracking step.\<close>

lemma generationLoop_unfold:
  assumes "gen st < generations cfg" "evaluateAndTrack e cfg st = Inr st1"
  shows "generationLoop e cfg st =
     (if converged st1 then Inr st1
      else (case reproduce e cfg st1 of
              Inl err \<Rightarrow> Inl err
            | Inr st2 \<Rightarrow> generationLoop e cfg (st2\<lparr>gen := gen st1 + 1\<rparr>)))"
  unfolding evaluateAndTrack_frame(1) [OF assms(2)]
  using assms by (subst generationLoop.simps) simp

lemma generationLoop_exit:
  "\<not> gen st < generations cfg \<Longrightarrow> generationLoop e cfg st = Inr st"
  by (subst generationLoop.simps) simp

lemma run_from_point:
  "atLoopHead e cfg st \<Longrightarrow> generationLoop e cfg st = evolvePromptRun e cfg"
  "atTracked e cfg st1 \<Longrightarrow>
     (if converged st1 then Inr st1
      else (case reproduce e cfg st1 of
              Inl err \<Rightarrow> Inl err
            | Inr st2 \<Rightarrow> generationLoop e cfg (st2\<lparr>gen := gen st1 + 1\<rparr>)))
     = evolvePromptRun e cfg"
proof (induction rule: atLoopHead_atTracked.inducts)
  case initial
  show ?case by (simp add: evolvePromptRun_def)
next
  case (tracked st st1)
  then show ?case using generationLoop_unfold [of st cfg e st1] by simp
next
  case (reproduced st1 st2)
  then show ?case by simp
qed

lemma final_state_reachable_from:
  "atLoopHead e cfg st \<Longrightarrow> generationLoop e cfg st = Inr s \<Longrightarrow>
     atLoopHead e cfg s \<or> atTracked e cfg s"
proof (induction e cfg st rule: generationLoop.induct)
  case (1 e cfg st)
  show ?case
  proof (cases "gen st < generations cfg")
    case False
    then show ?thesis using "1.prems" by (simp add: generationLoop_exit)
  next
    case True
    from "1.prems"(2) True obtain st1 where ev: "evaluateAndTrack e cfg st = Inr st1"
      by (subst (asm) generationLoop.simps) (auto split: sum.splits)
    have tr: "atTracked e cfg st1" using "1.prems"(1) True ev by (rule atLoopHead_atTracked.tracked)
    show ?thesis
    proof (cases "converged st1")
      case True
      then show ?thesis using "1.prems"(2) \<open>gen st < generations cfg\<close> ev tr
        by (simp add: generationLoop_unfold)
    next
      case False
      from "1.prems"(2) \<open>gen st < generations cfg\<close> ev False obtain st2 where
        re: "reproduce e cfg st1 = Inr st2"
        and rest: "generationLoop e cfg (st2\<lparr>gen := gen st1 + 1\<rparr>) = Inr s"
        by (auto simp: generationLoop_unfold split: sum.splits)
      have hd: "atLoopHead e cfg (st2\<lparr>gen := gen st1 + 1\<rparr>)"
        using tr False re by (rule atLoopHead_atTracked.reproduced)
      have g: "gen st1 = gen st" using evaluateAndTrack_frame(1) [OF ev] .
      show ?thesis
        using "1.IH" [OF \<open>gen st < generations cfg\<close> ev False re] hd rest g by simp
    qed
  qed
qed

lemma final_state_reachable:
  "evolvePromptRun e cfg = Inr s \<Longrightarrow> atLoopHead e cfg s \<or> atTracked e cfg s"
  using final_state_reachable_from [OF atLoopHead_atTracked.initial]
  by (simp add: evolvePromptRun_def)

lemma trackingInv_at_points:
  assumes "atLoopHead e cfg st \<or> atTracked e cfg st"
  shows "\<exists>g. trackingInv g st \<and> g \<le> gen st + 1"
  using assms reachable_invariants [of e cfg st]
  by (auto simp: headInv_def trackedInv_def intro: exI [of _ "gen st"])

section \<open>Evaluating concrete runs\<close>

text \<open>The definitions that the simplifier unfolds to run the model on a concrete input.\<close>

lemmas run_simps =
  initialState_def initializePopulation_def initializeLoop.simps initialWorld_def
  mutatePrompt_def crossoverPrompts_def calculatePromptFitness_def
  Math_random_def messages_create_def Math_round_def mutationsLength_def
  evaluateAndTrack_def evaluateFitness_def byFitnessDesc_def
  js_gt_def js_ge_def js_sub_def lastFitnessOrZero_def converged_def
  reproduce_def evolvePopulation_def fillPopulation.simps elites_def eliteCountOf_def
  arrayGet_def emptyObject_def offspring_def tournamentSelect_def tournamentSize_def
  Let_def split_def

lemma scoreResponse_bracket: "scoreResponse ''['' = 1501 / 7500"
  by (simp add: scoreResponse_def fitnessSum_def structureBonus_def codingBonus_def
      codingCount_def matchLength_def canonicalize_def reasoningBonus_def methodBonus_def
      methodScore_def methodTerms_def toLowerCase_def lowerChar_def lengthBonus_def
      lengthRatio_def idealLength_def char_of_eq_iff)

lemma bracket_initial:
  "initialState bracketService pairConfig =
     \<lparr>gen = 0,
      population = [\<lparr>prompt = Some ''p'', fitness = Some 0\<rparr>,
                    \<lparr>prompt = Some ''['', fitness = Some 0\<rparr>],
      bestEver = \<lparr>prompt = Some ''p'', fitness = Some 0\<rparr>,
      improvements = [],
      io = \<lparr>requests = [MutationRequest (Some 0) 30 (Some ''p'')], draws = 1\<rparr>\<rparr>"
  by (simp add: run_simps bracketService_def pairConfig_def)

lemma bracket_evaluated:
  "evaluateFitness bracketService (population (initialState bracketService pairConfig))
      (fitnessFunction pairConfig) (io (initialState bracketService pairConfig)) =
     ([\<lparr>prompt = Some ''p'', fitness = Some (1501 / 7500)\<rparr>,
       \<lparr>prompt = Some ''['', fitness = Some (1501 / 7500)\<rparr>],
      \<lparr>requests = [MutationRequest (Some 0) 30 (Some ''p''),
                FitnessRequest (Some ''p''), FitnessRequest (Some ''['')], draws = 1\<rparr>)"
  unfolding bracket_initial
  by (simp add: run_simps bracketService_def pairConfig_def scoreResponse_bracket)

lemma bracket_run: "evolvePromptRun bracketService pairConfig = Inr bracketFinal"
  unfolding bracketFinal_def by code_simp

lemma scoreResponse_rich: "scoreResponse richResponse = 1"
  by (simp add: scoreResponse_def richResponse_sum)

lemma rich_initial:
  "initialState richService pairConfig =
     \<lparr>gen = 0,
      population = [\<lparr>prompt = Some ''p'', fitness = Some 0\<rparr>,
                    \<lparr>prompt = Some richResponse, fitness = Some 0\<rparr>],
      bestEver = \<lparr>prompt = Some ''p'', fitness = Some 0\<rparr>,
      improvements = [],
      io = \<lparr>requests = [MutationRequest (Some 0) 30 (Some ''p'')], draws = 1\<rparr>\<rparr>"
  by (simp add: run_simps richService_def pairConfig_def)

lemma rich_tracked:
  "evaluateAndTrack richService pairConfig (initialState richService pairConfig) = Inr richTracked"
  unfolding rich_initial richTracked_def
  by (simp add: run_simps richService_def pairConfig_def scoreResponse_rich)

section \<open>The improvements log\<close>

text \<open>
  Claim C1, amended. When the best fitness \<open>f\<close> of the generation is strictly above
  \<open>bestEver.fitness\<close>, which is \<open>b\<close>, the tracking step makes the best individual the
  new \<open>bestEver\<close> and appends the record of the generation with fitness \<open>f\<close> and
  improvement \<open>f - b\<close>. The value \<open>b\<close> is 0 until the first record is written, so the
  improvement of the first record is its fitness, not 0.
\<close>

theorem improvement_record_appended:
  assumes "atLoopHead e cfg st" and "gen st < generations cfg"
    and "evaluateFitness e (population st) (fitnessFunction cfg) (io st) = (currentBest # rest, w1)"
    and "fitness currentBest = Some f" and "fitness (bestEver st) = Some b" and "b < f"
  shows "\<exists>st1. evaluateAndTrack e cfg st = Inr st1 \<and> bestEver st1 = currentBest
           \<and> improvements st1 = improvements st @
                [\<lparr>generation = gen st, fitnessG = Some f, improvement = Some (f - b)\<rparr>]
           \<and> improvement (hd (improvements st1)) = fitnessG (hd (improvements st1))"
proof -
  have inv: "headInv st" using assms(1) by (rule reachable_invariants(1))
  then have last: "lastFitnessOrZero (improvements st) = b"
    and len: "int (length (improvements st)) \<le> gen st"
    and first: "improvements st \<noteq> [] \<longrightarrow>
        improvement (hd (improvements st)) = fitnessG (hd (improvements st))"
    using assms(5) by (auto simp: headInv_def trackingInv_def)
  have base: "(if gen st > 0 then lastFitnessOrZero (improvements st) else 0) = b"
  proof (cases "gen st > 0")
    case True
    then show ?thesis using last by simp
  next
    case False
    then have "length (improvements st) = 0" using len by linarith
    then show ?thesis using last False by (simp add: lastFitnessOrZero_def)
  qed
  let ?st1 = "st\<lparr>population := currentBest # rest, io := w1, bestEver := currentBest,
      improvements := improvements st @
        [\<lparr>generation = gen st, fitnessG = Some f, improvement = Some (f - b)\<rparr>]\<rparr>"
  have "evaluateAndTrack e cfg st = Inr ?st1"
    using assms(3-6) base by (simp add: evaluateAndTrack_def js_gt_def js_sub_def)
  moreover have "improvement (hd (improvements ?st1)) = fitnessG (hd (improvements ?st1))"
  proof (cases "improvements st")
    case Nil
    then show ?thesis using last by (simp add: lastFitnessOrZero_def)
  next
    case (Cons a as)
    then show ?thesis using first by simp
  qed
  ultimately show ?thesis by simp
qed

theorem improvement_record_appended_witness:
  "atLoopHead bracketService pairConfig (initialState bracketService pairConfig)
   \<and> gen (initialState bracketService pairConfig) < generations pairConfig
   \<and> fitness (bestEver (initialState bracketService pairConfig)) = Some 0
   \<and> (0::real) < 1501 / 7500
   \<and> (\<exists>st1. evaluateAndTrack bracketService pairConfig
               (initialState bracketService pairConfig) = Inr st1
          \<and> improvements st1 =
               [\<lparr>generation = 0, fitnessG = Some (1501 / 7500),
                 improvement = Some (1501 / 7500)\<rparr>])"
proof -
  have h1: "atLoopHead bracketService pairConfig (initialState bracketService pairConfig)"
    by (rule atLoopHead_atTracked.initial)
  have h2: "gen (initialState bracketService pairConfig) < generations pairConfig"
    by (simp add: initialState_fields(1) pairConfig_def)
  have h5: "fitness (bestEver (initialState bracketService pairConfig)) = Some 0"
    by (simp add: bracket_initial)
  have h4: "fitness \<lparr>prompt = Some ''p'', fitness = Some (1501 / 7500 :: real)\<rparr> = Some (1501 / 7500)"
    by simp
  have h6: "(0::real) < 1501 / 7500" by simp
  show ?thesis
    using improvement_record_appended [OF h1 h2 bracket_evaluated h4 h5 h6] h1 h2 h5
    by (auto simp: bracket_initial)
qed

text \<open>
  Claim C1 as stated fails: in the run below the first record is written in generation
  0 with fitness \<open>1501 / 7500\<close>, and its improvement is \<open>1501 / 7500\<close>, not 0.
\<close>

theorem first_improvement_counterexample:
  "evolvePrompt firstCallService singleConfig =
     Inr \<lparr>best = Some ''p'', fitnessR = Some (1501 / 7500), generationsRun = 1,
          improvementsR = [\<lparr>generation = 0, fitnessG = Some (1501 / 7500),
                             improvement = Some (1501 / 7500)\<rparr>]\<rparr>"
  by code_simp

text \<open>
  Claim C10. At the head of the loop, after the tracking step and when the loop has
  ended, the records of \<open>improvements\<close> are strictly increasing in their generation and
  in their fitness, and the fitness of the last record is \<open>bestEver.fitness\<close>. The
  assignment to \<open>bestEver\<close> and the \<open>push\<close> that follows it are one step here: no
  other statement runs between them.
\<close>

theorem improvements_strictly_increasing:
  assumes "atLoopHead e cfg st \<or> atTracked e cfg st \<or> evolvePromptRun e cfg = Inr st"
  shows "sorted_wrt (\<lambda>a b. generation a < generation b) (improvements st)
       \<and> sorted_wrt (\<lambda>a b. js_gt (fitnessG b) (fitnessG a)) (improvements st)
       \<and> (improvements st \<noteq> [] \<longrightarrow>
            fitnessG (last (improvements st)) = fitness (bestEver st))"
proof -
  from assms have "atLoopHead e cfg st \<or> atTracked e cfg st"
    using final_state_reachable by blast
  then obtain g where inv: "trackingInv g st"
    using trackingInv_at_points by blast
  then have incr: "recordsIncreasing (improvements st)"
    and last: "improvements st \<noteq> [] \<longrightarrow>
            fitnessG (last (improvements st)) = fitness (bestEver st)"
    by (auto simp: trackingInv_def)
  have "sorted_wrt (\<lambda>a b. generation a < generation b) (improvements st)"
    using incr unfolding recordsIncreasing_def by (rule sorted_wrt_mono_rel [rotated]) simp
  moreover have "sorted_wrt (\<lambda>a b. js_gt (fitnessG b) (fitnessG a)) (improvements st)"
    using incr unfolding recordsIncreasing_def by (rule sorted_wrt_mono_rel [rotated]) simp
  ultimately show ?thesis using last by simp
qed

theorem improvements_strictly_increasing_witness:
  "evolvePromptRun bracketService pairConfig = Inr bracketFinal
   \<and> improvements bracketFinal =
       [\<lparr>generation = 0, fitnessG = Some (1501 / 7500), improvement = Some (1501 / 7500)\<rparr>]
   \<and> fitnessG (last (improvements bracketFinal)) = fitness (bestEver bracketFinal)"
  using improvements_strictly_increasing [OF disjI2 [OF disjI2 [OF bracket_run]]] bracket_run
  by (simp add: bracketFinal_def)

section \<open>The early exit\<close>

text \<open>
  Claim C2. When the best fitness reaches 0.98 in generation \<open>g\<close>, the run ends in the
  state that the tracking step of generation \<open>g\<close> leaves: the generation counter is
  still \<open>g\<close> and the world is the one after the evaluation, so no reproduction step
  is made for generation \<open>g\<close>; \<open>generationsRun\<close> is at most \<open>g + 1\<close>. The theorem
  needs only \<open>g < generations\<close>, which holds when \<open>g < generations - 1\<close>.
\<close>

theorem early_exit_at_convergence:
  assumes "atLoopHead e cfg st" and "gen st < generations cfg"
    and "evaluateAndTrack e cfg st = Inr st1"
    and "js_ge (fitness (bestEver st1)) (Some 0.98)"
  shows "evolvePromptRun e cfg = Inr st1
       \<and> gen st1 = gen st
       \<and> io st1 = snd (evaluateFitness e (population st) (fitnessFunction cfg) (io st))
       \<and> evolvePrompt e cfg = Inr (resultOf st1)
       \<and> int (generationsRun (resultOf st1)) \<le> gen st + 1"
proof -
  have tr: "atTracked e cfg st1"
    using assms(1-3) by (rule atLoopHead_atTracked.tracked)
  then have inv: "trackedInv st1" by (rule reachable_invariants(2))
  then have conv: "converged st1" using assms(4) by (simp add: trackedInv_def)
  have run: "evolvePromptRun e cfg = Inr st1"
    using run_from_point(2) [OF tr] conv by simp
  have g: "gen st1 = gen st" using assms(3) by (rule evaluateAndTrack_frame(1))
  have "int (length (improvements st1)) \<le> gen st1 + 1"
    using inv by (auto simp: trackedInv_def trackingInv_def)
  then show ?thesis
    using run g evaluateAndTrack_frame(3) [OF assms(3)]
    by (simp add: evolvePrompt_def resultOf_def)
qed

theorem early_exit_at_convergence_witness:
  "atLoopHead richService pairConfig (initialState richService pairConfig)
   \<and> gen (initialState richService pairConfig) < generations pairConfig - 1
   \<and> evaluateAndTrack richService pairConfig (initialState richService pairConfig)
       = Inr richTracked
   \<and> js_ge (fitness (bestEver richTracked)) (Some 0.98)
   \<and> evolvePromptRun richService pairConfig = Inr richTracked
   \<and> gen richTracked = 0
   \<and> generationsRun (resultOf richTracked) = 1"
proof -
  have h1: "atLoopHead richService pairConfig (initialState richService pairConfig)"
    by (rule atLoopHead_atTracked.initial)
  have h2: "gen (initialState richService pairConfig) < generations pairConfig"
    by (simp add: initialState_fields(1) pairConfig_def)
  have h2': "gen (initialState richService pairConfig) < generations pairConfig - 1"
    by (simp add: initialState_fields(1) pairConfig_def)
  have h4: "js_ge (fitness (bestEver richTracked)) (Some 0.98)"
    by (simp add: richTracked_def js_ge_def)
  show ?thesis
    using early_exit_at_convergence [OF h1 h2 rich_tracked h4] h1 h2' rich_tracked h4
    by (simp add: richTracked_def resultOf_def)
qed

section \<open>The size of the population\<close>

lemma population_size_at_points:
  assumes "2 \<le> populationSize cfg"
  shows "atLoopHead e cfg st \<Longrightarrow> int (length (population st)) = populationSize cfg"
    and "atTracked e cfg st1 \<Longrightarrow> int (length (population st1)) = populationSize cfg"
proof (induction rule: atLoopHead_atTracked.inducts)
  case initial
  show ?case using assms by (simp add: initialState_fields(4) initializePopulation_length)
next
  case (tracked st st1)
  then show ?case
    using evaluateAndTrack_frame(2) [of e cfg st st1] by (simp add: evaluateFitness_length)
next
  case (reproduced st1 st2)
  note re = \<open>reproduce e cfg st1 = Inr st2\<close>
    and ih = \<open>int (length (population st1)) = populationSize cfg\<close>
  have "nat (eliteCountOf (populationSize cfg)) \<le> length (population st1)"
    using eliteCountOf_le [OF assms] ih by linarith
  then show ?case
    using reproduce_frame(4) [OF re] ih by simp
qed

text \<open>
  Claim C7. With \<open>populationSize\<close> at least 2, the population has exactly
  \<open>populationSize\<close> members at the head of the loop (after the initialisation and
  after every reproduction step), after each evaluation and at the end of the run.
\<close>

theorem population_size_invariant:
  assumes "2 \<le> populationSize cfg"
    and "atLoopHead e cfg st \<or> atTracked e cfg st \<or> evolvePromptRun e cfg = Inr st"
  shows "int (length (population st)) = populationSize cfg"
proof -
  from assms(2) have "atLoopHead e cfg st \<or> atTracked e cfg st"
    using final_state_reachable by blast
  then show ?thesis using population_size_at_points [OF assms(1)] by blast
qed

theorem population_size_invariant_witness:
  "2 \<le> populationSize pairConfig
   \<and> evolvePromptRun bracketService pairConfig = Inr bracketFinal
   \<and> int (length (population bracketFinal)) = populationSize pairConfig"
proof -
  have h1: "2 \<le> populationSize pairConfig" by (simp add: pairConfig_def)
  show ?thesis
    using population_size_invariant [OF h1 disjI2 [OF disjI2 [OF bracket_run]]] h1 bracket_run
    by simp
qed

section \<open>Runs return\<close>

lemma generationLoop_succeeds:
  "valid_random e \<Longrightarrow> population st \<noteq> [] \<Longrightarrow> \<exists>s. generationLoop e cfg st = Inr s"
proof (induction e cfg st rule: generationLoop.induct)
  case (1 e cfg st)
  show ?case
  proof (cases "gen st < generations cfg")
    case False
    then show ?thesis by (simp add: generationLoop_exit)
  next
    case True
    obtain st1 where ev: "evaluateAndTrack e cfg st = Inr st1"
      using evaluateAndTrack_succeeds [OF "1.prems"(2)] by blast
    have ne1: "population st1 \<noteq> []" using ev by (rule evaluateAndTrack_frame(4))
    show ?thesis
    proof (cases "converged st1")
      case True
      then show ?thesis using \<open>gen st < generations cfg\<close> ev by (simp add: generationLoop_unfold)
    next
      case False
      obtain st2 where re: "reproduce e cfg st1 = Inr st2"
        using reproduce_succeeds [OF "1.prems"(1) ne1] by blast
      have "population (st2\<lparr>gen := gen st + 1\<rparr>) \<noteq> []"
        using reproduce_nonempty [OF re] by simp
      then have "\<exists>s. generationLoop e cfg (st2\<lparr>gen := gen st + 1\<rparr>) = Inr s"
        using "1.IH" [OF True ev False re "1.prems"(1)] by simp
      then show ?thesis
        using \<open>gen st < generations cfg\<close> ev False re evaluateAndTrack_frame(1) [OF ev]
        by (simp add: generationLoop_unfold)
    qed
  qed
qed

lemma evolvePromptRun_succeeds: "valid_random e \<Longrightarrow> \<exists>s. evolvePromptRun e cfg = Inr s"
  unfolding evolvePromptRun_def
  by (rule generationLoop_succeeds) (simp_all add: initialState_nonempty)

section \<open>Runs in which every evaluation yields 0\<close>

lemma calculatePromptFitness_zero:
  "serviceScoresZero e \<Longrightarrow> fst (calculatePromptFitness e p ft w) = 0"
  unfolding serviceScoresZero_def calculatePromptFitness_fst
  by (auto split: option.splits dest: spec [of _ "length (requests w)"])

lemma evaluateAll_zero:
  "serviceScoresZero e \<Longrightarrow> y \<in> set (fst (evaluateAll e xs ft w)) \<Longrightarrow> fitness y = Some 0"
proof (induction xs arbitrary: w)
  case Nil
  then show ?case by simp
next
  case (Cons x xs)
  from Cons.prems(2)
  have "y = x\<lparr>fitness := Some (fst (calculatePromptFitness e (prompt x) ft w))\<rparr>
      \<or> y \<in> set (fst (evaluateAll e xs ft (snd (calculatePromptFitness e (prompt x) ft w))))"
    by (auto simp: Let_def split_def)
  then show ?case
    using Cons.IH [OF Cons.prems(1)] calculatePromptFitness_zero [OF Cons.prems(1)] by auto
qed

lemma serviceScoresZero_run: "serviceScoresZero e \<Longrightarrow> allEvaluationsZero e cfg"
proof -
  assume z: "serviceScoresZero e"
  have "\<And>st st1 x. evaluateAndTrack e cfg st = Inr st1 \<Longrightarrow> x \<in> set (population st1)
      \<Longrightarrow> fitness x = Some 0"
  proof -
    fix st st1 x
    assume ev: "evaluateAndTrack e cfg st = Inr st1" and x: "x \<in> set (population st1)"
    have "x \<in> set (fst (evaluateAll e (population st) (fitnessFunction cfg) (io st)))"
      using x evaluateAndTrack_frame(2) [OF ev]
      by (simp add: evaluateFitness_def Let_def split_def sortJS_set)
    then show "fitness x = Some 0" using evaluateAll_zero [OF z] by blast
  qed
  then show ?thesis
    unfolding allEvaluationsZero_def by (auto elim: atTracked.cases)
qed

lemma zero_run_keeps_seed:
  assumes "allEvaluationsZero e cfg"
  shows "atLoopHead e cfg st \<Longrightarrow>
           bestEver st = \<lparr>prompt = Some (basePrompt cfg), fitness = Some 0\<rparr> \<and> improvements st = []"
    and "atTracked e cfg st1 \<Longrightarrow>
           bestEver st1 = \<lparr>prompt = Some (basePrompt cfg), fitness = Some 0\<rparr> \<and> improvements st1 = []"
proof (induction rule: atLoopHead_atTracked.inducts)
  case initial
  show ?case by (simp add: initialState_fields(2,3))
next
  case (tracked st st1)
  have tr: "atTracked e cfg st1"
    using \<open>atLoopHead e cfg st\<close> \<open>gen st < generations cfg\<close>
      \<open>evaluateAndTrack e cfg st = Inr st1\<close>
    by (rule atLoopHead_atTracked.tracked)
  obtain currentBest rest f where
    pop: "population st1 = currentBest # rest" and f: "fitness currentBest = Some f"
    and keep: "\<not> js_gt (Some f) (fitness (bestEver st)) \<longrightarrow>
       bestEver st1 = bestEver st \<and> improvements st1 = improvements st"
    using evaluateAndTrack_cases [OF \<open>evaluateAndTrack e cfg st = Inr st1\<close>] by blast
  have "fitness currentBest = Some 0"
    using assms tr pop by (auto simp: allEvaluationsZero_def)
  then have "f = 0" using f by simp
  then show ?case
    using keep \<open>bestEver st = \<lparr>prompt = Some (basePrompt cfg), fitness = Some 0\<rparr>
        \<and> improvements st = []\<close>
    by (simp add: js_gt_def)
next
  case (reproduced st1 st2)
  then show ?case using reproduce_frame(2,3) [of e cfg st1 st2] by simp
qed

text \<open>
  Claim C4. With random numbers in the range of \<open>Math.random\<close>, every run returns a
  result and never an error. When every fitness evaluation of the run yields 0, the
  result is the base prompt with fitness 0, \<open>generationsRun\<close> 0 and an empty
  improvements list.
\<close>

theorem all_evaluations_zero_result:
  assumes "valid_random e"
  shows "(\<exists>r. evolvePrompt e cfg = Inr r)
       \<and> (allEvaluationsZero e cfg \<longrightarrow>
            evolvePrompt e cfg =
              Inr \<lparr>best = Some (basePrompt cfg), fitnessR = Some 0, generationsRun = 0,
                   improvementsR = []\<rparr>)"
proof -
  obtain s where run: "evolvePromptRun e cfg = Inr s"
    using evolvePromptRun_succeeds [OF assms] by blast
  then have "atLoopHead e cfg s \<or> atTracked e cfg s" by (rule final_state_reachable)
  then have "allEvaluationsZero e cfg \<Longrightarrow>
      bestEver s = \<lparr>prompt = Some (basePrompt cfg), fitness = Some 0\<rparr> \<and> improvements s = []"
    using zero_run_keeps_seed by blast
  then show ?thesis using run by (auto simp: evolvePrompt_def resultOf_def)
qed

theorem all_evaluations_zero_result_witness:
  "valid_random failingService \<and> allEvaluationsZero failingService pairConfig
   \<and> evolvePrompt failingService pairConfig =
       Inr \<lparr>best = Some ''p'', fitnessR = Some 0, generationsRun = 0, improvementsR = []\<rparr>"
proof -
  have h1: "valid_random failingService" by (simp add: valid_random_def failingService_def)
  have "serviceScoresZero failingService"
    by (simp add: serviceScoresZero_def failingService_def)
  then have h2: "allEvaluationsZero failingService pairConfig" by (rule serviceScoresZero_run)
  show ?thesis
    using all_evaluations_zero_result [OF h1, of pairConfig] h1 h2
    by (simp add: pairConfig_def)
qed

section \<open>The last reproduction step\<close>

lemma reproduce_gen_update:
  "reproduce e cfg (st\<lparr>gen := g\<rparr>) =
     (case reproduce e cfg st of Inl err \<Rightarrow> Inl err | Inr st2 \<Rightarrow> Inr (st2\<lparr>gen := g\<rparr>))"
  by (simp add: reproduce_def split: sum.splits prod.splits)

lemma converged_gen_update: "converged (st\<lparr>gen := g\<rparr>) = converged st"
  by (simp add: converged_def)

lemma generationLoopSkipLast_exit:
  "\<not> gen st < generations cfg \<Longrightarrow> generationLoopSkipLast e cfg st = Inr st"
  by (subst generationLoopSkipLast.simps) simp

text \<open>
  The loop of the source is the loop of the variant followed by one more reproduction
  step, unless no generation was run or the run ended by the early exit.
\<close>

lemma generationLoop_skipLast:
  "generationLoop e cfg st =
     (case generationLoopSkipLast e cfg st of
        Inl err \<Rightarrow> Inl err
      | Inr s \<Rightarrow> if gen st < generations cfg \<and> \<not> converged s then reproduce e cfg s else Inr s)"
proof (induction e cfg st rule: generationLoop.induct)
  case (1 e cfg st)
  show ?case
  proof (cases "gen st < generations cfg")
    case False
    then show ?thesis by (simp add: generationLoop_exit generationLoopSkipLast_exit)
  next
    case True
    show ?thesis
    proof (cases "evaluateAndTrack e cfg st")
      case (Inl err)
      then show ?thesis
        using True
        by (subst generationLoop.simps, subst generationLoopSkipLast.simps) simp
    next
      case (Inr st1)
      show ?thesis
      proof (cases "converged st1")
        case True
        then show ?thesis
          using \<open>gen st < generations cfg\<close> Inr
          by (subst generationLoop.simps, subst generationLoopSkipLast.simps) simp
      next
        case False
        show ?thesis
        proof (cases "reproduce e cfg st1")
          case (Inl err)
          then show ?thesis
            using \<open>gen st < generations cfg\<close> \<open>evaluateAndTrack e cfg st = Inr st1\<close> False
            by (subst generationLoop.simps, subst generationLoopSkipLast.simps)
               (simp add: reproduce_gen_update converged_gen_update)
        next
          case (Inr st2)
          note ih = "1.IH" [OF True \<open>evaluateAndTrack e cfg st = Inr st1\<close> False Inr]
          show ?thesis
          proof (cases "gen st + 1 < generations cfg")
            case True
            then show ?thesis
              using \<open>gen st < generations cfg\<close> \<open>evaluateAndTrack e cfg st = Inr st1\<close> False Inr ih
              by (subst generationLoop.simps, subst generationLoopSkipLast.simps)
                 (simp split: sum.splits)
          next
            case False
            then have "generationLoop e cfg (st2\<lparr>gen := gen st + 1\<rparr>) = Inr (st2\<lparr>gen := gen st + 1\<rparr>)"
              by (simp add: generationLoop_exit)
            then show ?thesis
              using \<open>gen st < generations cfg\<close> \<open>evaluateAndTrack e cfg st = Inr st1\<close>
                \<open>\<not> converged st1\<close> Inr False
              by (subst generationLoop.simps, subst generationLoopSkipLast.simps)
                 (simp add: reproduce_gen_update converged_gen_update)
          qed
        qed
      qed
    qed
  qed
qed

text \<open>
  Claim C9. The result of \<open>evolvePrompt\<close> is the result of the variant that skips the
  last reproduction step. When the variant ends after at least one generation in a
  state that has not reached the threshold 0.98, the source makes one more reproduction
  step from that state and ends there: the population it builds is never evaluated.
\<close>

theorem last_reproduction_unobserved:
  assumes "valid_random e"
  shows "evolvePrompt e cfg = evolvePromptSkipLast e cfg
       \<and> (\<exists>s. generationLoopSkipLast e cfg (initialState e cfg) = Inr s
            \<and> (0 < generations cfg \<and> \<not> converged s \<longrightarrow>
                 (\<exists>s2. reproduce e cfg s = Inr s2 \<and> evolvePromptRun e cfg = Inr s2)))"
proof -
  obtain x where run: "generationLoop e cfg (initialState e cfg) = Inr x"
    using evolvePromptRun_succeeds [OF assms, of cfg] by (auto simp: evolvePromptRun_def)
  from run obtain s where skip: "generationLoopSkipLast e cfg (initialState e cfg) = Inr s"
    and x: "(if gen (initialState e cfg) < generations cfg \<and> \<not> converged s
             then reproduce e cfg s else Inr s) = Inr x"
    by (subst (asm) generationLoop_skipLast) (auto split: sum.splits)
  have res: "resultOf x = resultOf s"
    using x reproduce_frame(2,3) [of e cfg s x]
    by (auto simp: resultOf_def split: if_splits)
  have "evolvePrompt e cfg = evolvePromptSkipLast e cfg"
    using run skip res by (simp add: evolvePrompt_def evolvePromptRun_def evolvePromptSkipLast_def)
  moreover have "0 < generations cfg \<and> \<not> converged s \<longrightarrow>
      (\<exists>s2. reproduce e cfg s = Inr s2 \<and> evolvePromptRun e cfg = Inr s2)"
    using x run by (auto simp: initialState_fields(1) evolvePromptRun_def split: if_splits)
  ultimately show ?thesis using skip by blast
qed

theorem last_reproduction_unobserved_witness:
  "valid_random bracketService
   \<and> evolvePrompt bracketService pairConfig = Inr (resultOf bracketFinal)
   \<and> evolvePromptSkipLast bracketService pairConfig = Inr (resultOf bracketFinal)"
proof -
  have h: "valid_random bracketService" by (simp add: valid_random_def bracketService_def)
  show ?thesis
    using last_reproduction_unobserved [OF h, of pairConfig] h bracket_run
    by (simp add: evolvePrompt_def)
qed

section \<open>A population of one\<close>

lemma single_initial:
  assumes "populationSize cfg = 1"
  shows "initialState e cfg =
     \<lparr>gen = 0, population = [\<lparr>prompt = Some (basePrompt cfg), fitness = Some 0\<rparr>],
      bestEver = \<lparr>prompt = Some (basePrompt cfg), fitness = Some 0\<rparr>,
      improvements = [], io = initialWorld\<rparr>"
  using assms by (simp add: initialState_def initializePopulation_def initializeLoop.simps)

text \<open>
  With one individual \<open>eliteCount\<close> is 2: the elitism loop copies the individual and
  then spreads \<open>population[1]\<close>, which is \<open>undefined\<close>, into an empty object. The new
  population is already longer than the old one, so the \<open>while\<close> loop makes no child.
\<close>

lemma single_elites: "elites [x] (eliteCountOf 1) = [x, emptyObject]"
proof -
  have "eliteCountOf 1 = 2" by (simp add: eliteCountOf_def)
  moreover have "[0..<nat 2] = [0, 1]" by (simp add: upt_rec)
  ultimately show ?thesis by (simp add: elites_def arrayGet_def)
qed

lemma single_reproduce:
  assumes "populationSize cfg = 1"
  shows "reproduce e cfg (st\<lparr>population := [x]\<rparr>) =
     Inr (st\<lparr>population := [x, emptyObject]\<rparr>)"
  using assms
  by (simp add: reproduce_def evolvePopulation_def fillPopulation.simps single_elites)

text \<open>
  Claim C3, amended. With \<open>generations = 1\<close> and \<open>populationSize = 1\<close> the run sends
  one request, the fitness evaluation of the base prompt, and draws no random number:
  no mutation and no crossover is made, neither by the initialisation nor after it. The
  result holds the base prompt and the fitness \<open>f\<close> that this one evaluation computed.
  The reproduction step is not skipped: when \<open>f\<close> is below 0.98 the source calls
  \<open>evolvePopulation\<close>, the run ends after it with the generation counter at 1, and the
  population it leaves is the evaluated individual followed by an empty object, which
  nothing evaluates. Only when \<open>f\<close> is at least 0.98 does the run end by the early
  exit, with the counter at 0 and the evaluated individual as the population.
\<close>

theorem single_individual_run:
  assumes "generations cfg = 1" and "populationSize cfg = 1"
  shows "\<exists>st f. evolvePromptRun e cfg = Inr st
       \<and> f = fst (calculatePromptFitness e (Some (basePrompt cfg)) (fitnessFunction cfg)
                   initialWorld)
       \<and> requests (io st) = [FitnessRequest (Some (basePrompt cfg))]
       \<and> draws (io st) = 0
       \<and> evolvePrompt e cfg = Inr (resultOf st)
       \<and> best (resultOf st) = Some (basePrompt cfg)
       \<and> fitnessR (resultOf st) = Some f
       \<and> (f < 0.98 \<longrightarrow>
            gen st = 1
          \<and> population st = [\<lparr>prompt = Some (basePrompt cfg), fitness = Some f\<rparr>, emptyObject]
          \<and> reproduce e cfg (st\<lparr>gen := 0,
                 population := [\<lparr>prompt = Some (basePrompt cfg), fitness = Some f\<rparr>]\<rparr>)
              = Inr (st\<lparr>gen := 0\<rparr>))
       \<and> (0.98 \<le> f \<longrightarrow>
            gen st = 0
          \<and> population st = [\<lparr>prompt = Some (basePrompt cfg), fitness = Some f\<rparr>])"
proof -
  let ?f = "fst (calculatePromptFitness e (Some (basePrompt cfg)) (fitnessFunction cfg) initialWorld)"
  let ?w = "snd (calculatePromptFitness e (Some (basePrompt cfg)) (fitnessFunction cfg) initialWorld)"
  let ?x = "\<lparr>prompt = Some (basePrompt cfg), fitness = Some ?f\<rparr>"
  let ?st0 = "initialState e cfg"
  have f0: "0 \<le> ?f" using calculatePromptFitness_range by blast
  have w: "requests ?w = [FitnessRequest (Some (basePrompt cfg))]" "draws ?w = 0"
    by (simp_all add: calculatePromptFitness_snd initialWorld_def)
  obtain st1 where ev: "evaluateAndTrack e cfg ?st0 = Inr st1"
    and st1: "population st1 = [?x]" "io st1 = ?w" "gen st1 = 0"
      "prompt (bestEver st1) = Some (basePrompt cfg)" "fitness (bestEver st1) = Some ?f"
  proof (cases "0 < ?f")
    case True
    then show ?thesis
      using that [of "?st0\<lparr>population := [?x], io := ?w, bestEver := ?x,
          improvements := [\<lparr>generation = 0, fitnessG = Some ?f, improvement = Some ?f\<rparr>]\<rparr>"]
      by (simp add: single_initial [OF assms(2)] evaluateAndTrack_def evaluateFitness_def
          Let_def split_def js_gt_def js_sub_def)
  next
    case False
    then have "?f = 0" using f0 by simp
    then show ?thesis
      using that [of "?st0\<lparr>population := [?x], io := ?w\<rparr>"]
      by (simp add: single_initial [OF assms(2)] evaluateAndTrack_def evaluateFitness_def
          Let_def split_def js_gt_def)
  qed
  have conv: "converged st1 \<longleftrightarrow> 0.98 \<le> ?f"
    using st1(1) by (simp add: converged_def js_ge_def)
  have g0: "gen ?st0 < generations cfg" using assms(1) by (simp add: initialState_fields(1))
  have self: "st1 = st1\<lparr>population := [?x]\<rparr>" using st1(1) by simp
  have re: "reproduce e cfg st1 = Inr (st1\<lparr>population := [?x, emptyObject]\<rparr>)"
    using single_reproduce [OF assms(2), where e = e and st = st1 and x = ?x] self by simp
  have "\<exists>st. evolvePromptRun e cfg = Inr st \<and> io st = ?w \<and> bestEver st = bestEver st1
      \<and> (?f < 0.98 \<longrightarrow> gen st = 1 \<and> population st = [?x, emptyObject]
            \<and> reproduce e cfg (st\<lparr>gen := 0, population := [?x]\<rparr>) = Inr (st\<lparr>gen := 0\<rparr>))
      \<and> (0.98 \<le> ?f \<longrightarrow> gen st = 0 \<and> population st = [?x])"
  proof (cases "converged st1")
    case True
    then show ?thesis
      using generationLoop_unfold [OF g0 ev] st1 conv by (simp add: evolvePromptRun_def)
  next
    case False
    let ?st2 = "st1\<lparr>population := [?x, emptyObject], gen := 1\<rparr>"
    have run: "evolvePromptRun e cfg = Inr ?st2"
      using generationLoop_unfold [OF g0 ev] False re st1(3) assms(1)
      by (simp add: evolvePromptRun_def generationLoop_exit)
    have restore: "?st2\<lparr>gen := 0, population := [?x]\<rparr> = st1"
      using st1(1,3) by simp
    have "reproduce e cfg (?st2\<lparr>gen := 0, population := [?x]\<rparr>) = Inr (?st2\<lparr>gen := 0\<rparr>)"
      unfolding restore using re st1(3) by simp
    then show ?thesis
      using run False conv st1 by simp
  qed
  then show ?thesis
    using st1 w by (auto simp: evolvePrompt_def resultOf_def)
qed

theorem single_individual_run_witness:
  "generations singleConfig = 1 \<and> populationSize singleConfig = 1
   \<and> (\<exists>st. evolvePromptRun firstCallService singleConfig = Inr st
        \<and> requests (io st) = [FitnessRequest (Some ''p'')]
        \<and> draws (io st) = 0
        \<and> best (resultOf st) = Some ''p''
        \<and> fitnessR (resultOf st) = Some (1501 / 7500)
        \<and> gen st = 1
        \<and> population st = [\<lparr>prompt = Some ''p'', fitness = Some (1501 / 7500)\<rparr>, emptyObject])"
proof -
  have h1: "generations singleConfig = 1" and h2: "populationSize singleConfig = 1"
    and bp: "basePrompt singleConfig = ''p''" and ff: "fitnessFunction singleConfig = ''quality''"
    by (simp_all add: singleConfig_def)
  have fv: "fst (calculatePromptFitness firstCallService (Some ''p'') ''quality'' initialWorld)
      = 1501 / 7500"
    by (simp add: calculatePromptFitness_fst firstCallService_def initialWorld_def
        scoreResponse_bracket)
  have lt: "(1501 / 7500 :: real) < 0.98" by simp
  show ?thesis
    using single_individual_run [OF h1 h2, of firstCallService] h1 h2 lt
    unfolding bp ff fv by blast
qed

text \<open>
  Claim C3 as stated fails where it says that no reproduction step is made. In the run
  below the fitness is \<open>1501 / 7500\<close>, below 0.98: after the tracking step of generation
  0 the source makes the reproduction step, and the run ends in the state this step
  leaves, with a second member in the population.
\<close>

theorem single_run_reproduces_counterexample:
  "evaluateAndTrack firstCallService singleConfig (initialState firstCallService singleConfig)
     = Inr singleTracked
   \<and> \<not> converged singleTracked
   \<and> reproduce firstCallService singleConfig singleTracked = Inr (singleFinal\<lparr>gen := 0\<rparr>)
   \<and> evolvePromptRun firstCallService singleConfig = Inr singleFinal
   \<and> population singleFinal \<noteq> population singleTracked"
proof -
  have init: "initialState firstCallService singleConfig =
     \<lparr>gen = 0, population = [\<lparr>prompt = Some ''p'', fitness = Some 0\<rparr>],
      bestEver = \<lparr>prompt = Some ''p'', fitness = Some 0\<rparr>,
      improvements = [], io = initialWorld\<rparr>"
    by (simp add: single_initial singleConfig_def)
  have ev: "evaluateAndTrack firstCallService singleConfig
      (initialState firstCallService singleConfig) = Inr singleTracked"
    unfolding init singleTracked_def
    by (simp add: run_simps firstCallService_def singleConfig_def scoreResponse_bracket)
  have nc: "\<not> converged singleTracked"
    by (simp add: converged_def singleTracked_def js_ge_def)
  have re: "reproduce firstCallService singleConfig singleTracked = Inr (singleFinal\<lparr>gen := 0\<rparr>)"
    using single_reproduce [where cfg = singleConfig and e = firstCallService
        and st = singleTracked and x = "\<lparr>prompt = Some ''p'', fitness = Some (1501 / 7500)\<rparr>"]
    by (simp add: singleConfig_def singleTracked_def singleFinal_def emptyObject_def)
  have g0: "gen (initialState firstCallService singleConfig) < generations singleConfig"
    by (simp add: initialState_fields(1) singleConfig_def)
  have "evolvePromptRun firstCallService singleConfig = Inr singleFinal"
    using generationLoop_unfold [OF g0 ev] nc re
    by (simp add: evolvePromptRun_def generationLoop_exit singleConfig_def singleTracked_def
        singleFinal_def)
  then show ?thesis
    using ev nc re by (simp add: singleFinal_def singleTracked_def)
qed

end
